theory Spec2Isabelle
  imports Main "HOL-Library.Char_ord" "HOL-Library.AList" "HOL-Library.List_Lexorder"
    "HOL-Library.Product_Lexorder"
begin

section \<open>Strings and regular expressions of the host language\<close>

text \<open>
  The program is a Node.js script. Its strings are modelled as \<^typ>\<open>string\<close>: a list of
  code units, restricted to the range 0..255 that \<^typ>\<open>char\<close> offers. Every pattern of
  the program is written with ASCII characters only.
\<close>

definition is_space :: "char \<Rightarrow> bool" where
  \<comment> \<open>\<open>\s\<close> and the characters \<open>trim()\<close> strips: TAB, LF, VT, FF, CR, SPACE, NBSP.\<close>
  "is_space c = (c \<in> set [CHR 0x09, CHR 0x0A, CHR 0x0B, CHR 0x0C, CHR 0x0D, CHR 0x20, CHR 0xA0])"

definition is_word :: "char \<Rightarrow> bool" where
  \<comment> \<open>\<open>\w\<close> is \<open>[A-Za-z0-9_]\<close>.\<close>
  "is_word c = ((CHR ''a'' \<le> c \<and> c \<le> CHR ''z'') \<or> (CHR ''A'' \<le> c \<and> c \<le> CHR ''Z'')
     \<or> (CHR ''0'' \<le> c \<and> c \<le> CHR ''9'') \<or> c = CHR ''_'')"

definition is_line_terminator :: "char \<Rightarrow> bool" where
  "is_line_terminator c = (c = CHR 0x0A \<or> c = CHR 0x0D)"

definition toLowerChar :: "char \<Rightarrow> char" where
  \<comment> \<open>An ASCII capital becomes the small letter: bit 5 of the code is set (the code plus 32).\<close>
  "toLowerChar c =
     (if CHR ''A'' \<le> c \<and> c \<le> CHR ''Z''
      then (case c of Char b0 b1 b2 b3 b4 b5 b6 b7 \<Rightarrow> Char b0 b1 b2 b3 b4 True b6 b7)
      else c)"

definition toUpperChar :: "char \<Rightarrow> char" where
  \<comment> \<open>An ASCII small letter becomes the capital: bit 5 of the code is cleared.\<close>
  "toUpperChar c =
     (if CHR ''a'' \<le> c \<and> c \<le> CHR ''z''
      then (case c of Char b0 b1 b2 b3 b4 b5 b6 b7 \<Rightarrow> Char b0 b1 b2 b3 b4 False b6 b7)
      else c)"

definition toLowerCase :: "string \<Rightarrow> string" where
  "toLowerCase s = map toLowerChar s"

definition trim :: "string \<Rightarrow> string" where
  "trim s = rev (dropWhile is_space (rev (dropWhile is_space s)))"

definition startsWith :: "string \<Rightarrow> string \<Rightarrow> bool" where
  "startsWith s p = (take (length p) s = p)"

fun split_on :: "char \<Rightarrow> string \<Rightarrow> string list" where
  \<comment> \<open>\<open>s.split(c)\<close> for a one-character separator: never empty, \<open>''''.split(c)\<close> is \<open>['''']\<close>.\<close>
  "split_on sep [] = [[]]"
| "split_on sep (c # cs) =
     (if c = sep then [] # split_on sep cs
      else (case split_on sep cs of [] \<Rightarrow> [[c]] | w # ws \<Rightarrow> (c # w) # ws))"

text \<open>
  Regular expressions. A character class lists its members; quantifiers are greedy and carry
  their bounds (\<open>*\<close> is \<open>Rep 0 None\<close>, \<open>+\<close> is \<open>Rep 1 None\<close>, \<open>{2,}\<close> is \<open>Rep 2 None\<close>,
  \<open>{1,2}\<close> is \<open>Rep 1 (Some 2)\<close>); \<open>Grp n\<close> is the \<open>n\<close>-th capturing group, plain nesting
  stands for \<open>(?:...)\<close>.
\<close>

datatype citem = Chr char | Rng char char | WordC | SpaceC

datatype re =
    Eps
  | Lit string
  | CSet "citem list"
  | NSet "citem list"
  | Dot
  | Seq re re
  | Alt re re
  | Rep nat "nat option" re
  | Grp nat re
  | Bol
  | Eol

fun item_has :: "citem \<Rightarrow> char \<Rightarrow> bool" where
  "item_has (Chr a) c = (c = a)"
| "item_has (Rng a b) c = (a \<le> c \<and> c \<le> b)"
| "item_has WordC c = is_word c"
| "item_has SpaceC c = is_space c"

definition canon :: "bool \<Rightarrow> char \<Rightarrow> char" where
  \<comment> \<open>Canonicalize of the \<open>i\<close> flag: upper-casing, which never maps into ASCII from outside it.\<close>
  "canon ci c = (if ci then toUpperChar c else c)"

definition in_class :: "bool \<Rightarrow> citem list \<Rightarrow> char \<Rightarrow> bool" where
  "in_class ci cs c =
     (list_ex (\<lambda>it. item_has it c) cs \<or>
      (ci \<and> (list_ex (\<lambda>it. item_has it (toUpperChar c)) cs \<or> list_ex (\<lambda>it. item_has it (toLowerChar c)) cs)))"

fun lit_prefix :: "bool \<Rightarrow> string \<Rightarrow> string \<Rightarrow> bool" where
  \<comment> \<open>The text starts with the literal, character by character.\<close>
  "lit_prefix ci [] s = True"
| "lit_prefix ci (p # ps) [] = False"
| "lit_prefix ci (p # ps) (c # s) =
     (if canon ci p = canon ci c then lit_prefix ci ps s else False)"

text \<open>
  A matcher state is the index reached, the text from that index on, and the captures so far.
  \<open>re_run\<close> lists the states a pattern can end in from a state, in the order the backtracking
  matcher of the host tries them: the head of the list is the match it reports.
\<close>

type_synonym captures = "(nat \<times> string) list"
type_synonym mstate = "nat \<times> string \<times> captures"

fun re_size :: "re \<Rightarrow> nat" where
  "re_size (Seq a b) = Suc (re_size a + re_size b)"
| "re_size (Alt a b) = Suc (re_size a + re_size b)"
| "re_size (Rep mn mx r) = Suc (re_size r)"
| "re_size (Grp n r) = Suc (re_size r)"
| "re_size _ = 0"

fun dec_max :: "nat option \<Rightarrow> nat option" where
  "dec_max None = None"
| "dec_max (Some k) = Some (k - 1)"

function re_run :: "bool \<Rightarrow> re \<Rightarrow> mstate \<Rightarrow> mstate list" where
  "re_run ci Eps st = [st]"
| "re_run ci (Lit p) (i, s, caps) =
     (if lit_prefix ci p s then [(i + length p, drop (length p) s, caps)] else [])"
| "re_run ci (CSet cs) (i, s, caps) =
     (case s of [] \<Rightarrow> [] | c # s' \<Rightarrow> if in_class ci cs c then [(Suc i, s', caps)] else [])"
| "re_run ci (NSet cs) (i, s, caps) =
     (case s of [] \<Rightarrow> [] | c # s' \<Rightarrow> if in_class ci cs c then [] else [(Suc i, s', caps)])"
| "re_run ci Dot (i, s, caps) =
     (case s of [] \<Rightarrow> [] | c # s' \<Rightarrow> if is_line_terminator c then [] else [(Suc i, s', caps)])"
| "re_run ci (Seq a b) st = concat (map (\<lambda>st'. re_run ci b st') (re_run ci a st))"
| "re_run ci (Alt a b) st = re_run ci a st @ re_run ci b st"
| "re_run ci (Rep mn mx r) (i, s, caps) =
     (if mx = Some 0 then [(i, s, caps)]
      else
        concat (map (\<lambda>(j, s', caps').
                  if mn = 0 \<and> \<not> length s' < length s then []
                  else re_run ci (Rep (mn - 1) (dec_max mx) r) (j, s', caps'))
               (re_run ci r (i, s, caps)))
        @ (if mn = 0 then [(i, s, caps)] else []))"
| "re_run ci (Grp n r) (i, s, caps) =
     map (\<lambda>(j, s', caps'). (j, s', (n, take (j - i) s) # caps')) (re_run ci r (i, s, caps))"
| "re_run ci Bol (i, s, caps) = (if i = 0 then [(i, s, caps)] else [])"
| "re_run ci Eol (i, s, caps) = (if s = [] then [(i, s, caps)] else [])"
  by pat_completeness auto
termination
  by (relation "measures [\<lambda>(ci, r, st). re_size r,
                          \<lambda>(ci, r, st). (case r of Rep mn mx b \<Rightarrow> mn | _ \<Rightarrow> 0),
                          \<lambda>(ci, r, (i, s, caps)). length s]") auto

text \<open>
  The equation of a repetition holds the repetition again; it is unfolded by hand where a proof
  needs it.
\<close>

declare re_run.simps(8) [simp del]

text \<open>
  \<open>re_search\<close> finds the leftmost match at or after the current index, as \<open>match\<close>,
  \<open>test\<close> and \<open>exec\<close> do; it returns the state at the end of the match.
\<close>

fun re_search :: "bool \<Rightarrow> re \<Rightarrow> nat \<Rightarrow> string \<Rightarrow> mstate option" where
  "re_search ci r i [] = (case re_run ci r (i, [], []) of [] \<Rightarrow> None | st # _ \<Rightarrow> Some st)"
| "re_search ci r i (c # s) =
     (case re_run ci r (i, c # s, []) of [] \<Rightarrow> re_search ci r (Suc i) s | st # _ \<Rightarrow> Some st)"

definition re_match :: "bool \<Rightarrow> re \<Rightarrow> string \<Rightarrow> captures option" where
  \<comment> \<open>\<open>s.match(r)\<close> for a pattern without the \<open>g\<close> flag.\<close>
  "re_match ci r s = map_option (\<lambda>(j, s', caps). caps) (re_search ci r 0 s)"

definition re_test :: "bool \<Rightarrow> re \<Rightarrow> string \<Rightarrow> bool" where
  "re_test ci r s = (re_match ci r s \<noteq> None)"

definition grp :: "captures \<Rightarrow> nat \<Rightarrow> string" where
  \<comment> \<open>\<open>match[n]\<close>. Every group of the program's patterns takes part in every match.\<close>
  "grp caps n = (case map_of caps n of Some g \<Rightarrow> g | None \<Rightarrow> [])"

text \<open>
  The loop \<open>while ((match = pattern.exec(code)) !== null)\<close> over a pattern with the \<open>g\<close>
  flag: each search starts where the last match ended. A match that ends where the search
  started would be found again for ever; \<open>None\<close> stands for that loop not ending.
\<close>

function exec_all :: "bool \<Rightarrow> re \<Rightarrow> nat \<Rightarrow> string \<Rightarrow> captures list option" where
  "exec_all ci r i s =
     (case re_search ci r i s of
        None \<Rightarrow> Some []
      | Some (j, s', caps) \<Rightarrow>
          if length s' < length s then map_option (\<lambda>ms. caps # ms) (exec_all ci r j s')
          else None)"
  by pat_completeness auto
termination
  by (relation "measure (\<lambda>(ci, r, i, s). length s)") auto

section \<open>Static source scanner\<close>

text \<open>Lines 189 to 241 of \<open>src/index.js\<close>: the patterns, as the source writes them.\<close>

definition ws :: re where "ws = CSet [SpaceC]"
definition quote :: re where "quote = CSet [Chr (CHR 0x27), Chr (CHR 0x22), Chr (CHR 0x60)]"
definition rep0 :: "re \<Rightarrow> re" where "rep0 r = Rep 0 None r"
definition rep1 :: "re \<Rightarrow> re" where "rep1 r = Rep 1 None r"
definition opt :: "re \<Rightarrow> re" where "opt r = Rep 0 (Some 1) r"
definition seq :: "re list \<Rightarrow> re" where "seq rs = foldr Seq rs Eps"
definition alts :: "re list \<Rightarrow> re" where "alts rs = foldr Alt (butlast rs) (last rs)"
definition word1 :: re where "word1 = rep1 (CSet [WordC])"

definition commandPatterns :: "re list" where
  "commandPatterns =
     [seq [Lit ''case'', rep1 ws, quote, Grp 1 word1, quote, rep0 ws, Lit '':''],
      seq [Lit ''args[0]'', rep0 ws, Lit ''=='', opt (Lit ''=''), rep0 ws, quote, Grp 1 word1, quote],
      seq [Lit ''command'', rep0 ws, Lit ''=='', opt (Lit ''=''), rep0 ws, quote, Grp 1 word1, quote],
      seq [Lit ''if'', rep0 ws, Lit ''('', rep0 ws, word1, rep0 ws, Lit ''=='', opt (Lit ''=''),
           rep0 ws, quote, Grp 1 word1, quote, rep0 ws, Lit '')'']]"

definition command_stoplist :: "string list" where
  "command_stoplist = [''help'', ''version'', ''default'', ''true'', ''false'', ''command'',
                       ''cmd'', ''action'', ''error'', ''exit'']"

definition set_add :: "'a \<Rightarrow> 'a list \<Rightarrow> 'a list" where
  \<comment> \<open>\<open>Set.prototype.add\<close>: a set keeps its members in the order they were first added.\<close>
  "set_add x xs = (if x \<in> set xs then xs else xs @ [x])"

definition add_command :: "captures \<Rightarrow> string list \<Rightarrow> string list" where
  "add_command caps staticCommands =
     (let cmd = grp caps 1
      in if cmd \<noteq> [] \<and> toLowerCase cmd \<notin> set command_stoplist
         then set_add cmd staticCommands else staticCommands)"

fun scan_commands :: "re list \<Rightarrow> string \<Rightarrow> string list \<Rightarrow> string list option" where
  "scan_commands [] code staticCommands = Some staticCommands"
| "scan_commands (pattern # ps) code staticCommands =
     (case exec_all False pattern 0 code of
        None \<Rightarrow> None
      | Some ms \<Rightarrow> scan_commands ps code (fold add_command ms staticCommands))"

definition flagPatterns :: "re list" where
  "flagPatterns =
     [seq [alts [Lit ''==='', Lit ''=='', Lit ''case'', Lit ''includes('', Lit ''indexOf(''],
           rep0 ws, quote,
           Grp 1 (seq [Rep 1 (Some 2) (Lit ''-''), rep1 (CSet [WordC, Chr (CHR ''-'')])]),
           quote],
      seq [alts [Lit ''argv'', Lit ''opts'', Lit ''flags''], Lit ''.'',
           Grp 1 (rep1 (CSet [Rng (CHR ''a'') (CHR ''z''), Rng (CHR ''A'') (CHR ''Z''),
                              Rng (CHR ''0'') (CHR ''9''), Chr (CHR ''_'')]))]]"

definition flag_rejects :: "string list" where
  "flag_rejects = [''--'', ''-'', ''-1'', ''---'', ''--help'', ''-h'', ''--push'', ''--pop'',
     ''--shift'', ''--unshift'', ''--slice'', ''--splice'', ''--map'', ''--filter'', ''--reduce'',
     ''--forEach'', ''--find'', ''--join'', ''--includes'', ''--indexOf'', ''--toString'',
     ''--length'', ''--concat'']"

definition flag_placeholders :: "string list" where
  "flag_placeholders = [''--flag'', ''--cmd'', ''--opt'', ''--arg'', ''--args'', ''--foo'', ''--bar'']"

definition flag_shape :: re where
  \<comment> \<open>\<open>/^-{1,2}[a-zA-Z]/\<close>\<close>
  "flag_shape = seq [Bol, Rep 1 (Some 2) (Lit ''-''),
                     CSet [Rng (CHR ''a'') (CHR ''z''), Rng (CHR ''A'') (CHR ''Z'')]]"

definition normalize_flag :: "string \<Rightarrow> string" where
  "normalize_flag flag =
     (if \<not> startsWith flag ''-''
      then (if length flag = 1 then ''-'' @ flag else ''--'' @ flag)
      else flag)"

definition add_flag :: "captures \<Rightarrow> string list \<Rightarrow> string list" where
  "add_flag caps staticFlags =
     (let flag = normalize_flag (grp caps 1)
      in if flag \<noteq> [] \<and> flag \<notin> set flag_rejects
         then (if flag \<in> set flag_placeholders then staticFlags
               else if re_test False flag_shape flag then set_add flag staticFlags
               else staticFlags)
         else staticFlags)"

fun scan_flags :: "re list \<Rightarrow> string \<Rightarrow> string list \<Rightarrow> string list option" where
  "scan_flags [] code staticFlags = Some staticFlags"
| "scan_flags (pattern # ps) code staticFlags =
     (case exec_all False pattern 0 code of
        None \<Rightarrow> None
      | Some ms \<Rightarrow> scan_flags ps code (fold add_flag ms staticFlags))"

definition usage_pattern :: re where
  \<comment> \<open>\<open>/Usage:\s*(.+)/i\<close>\<close>
  "usage_pattern = seq [Lit ''Usage:'', rep0 ws, Grp 1 (rep1 Dot)]"

definition scan_usage :: "string \<Rightarrow> string list \<Rightarrow> string list" where
  "scan_usage code usage =
     (case re_match True usage_pattern code of
        None \<Rightarrow> usage
      | Some caps \<Rightarrow> usage @ [trim (grp caps 1)])"

text \<open>
  The body of the loop over the entry files for one file that was read: commands, then flags,
  then the usage line. The state is the two sets and the usage list.
\<close>

record scan_state =
  staticCommands :: "string list"
  staticFlags :: "string list"
  usage :: "string list"

definition scan_code :: "string \<Rightarrow> scan_state \<Rightarrow> scan_state option" where
  "scan_code code st =
     (case scan_commands commandPatterns code (staticCommands st) of
        None \<Rightarrow> None
      | Some cmds \<Rightarrow>
          (case scan_flags flagPatterns code (staticFlags st) of
             None \<Rightarrow> None
           | Some fls \<Rightarrow>
               Some \<lparr>staticCommands = cmds, staticFlags = fls, usage = scan_usage code (usage st)\<rparr>))"


section \<open>Help-text parser\<close>

text \<open>\<open>parseHelpOutput\<close>, lines 122 to 156. A record of the result is \<open>{ name, desc }\<close>.\<close>

record entry =
  name :: string
  desc :: string

record help_state =
  cur_section :: "string option"
  r_commands :: "entry list"
  r_flags :: "entry list"

definition header_pattern :: re where
  \<comment> \<open>\<open>/^(Commands|Usage|Options|Flags):/i\<close>\<close>
  "header_pattern =
     seq [Bol, Grp 1 (alts [Lit ''Commands'', Lit ''Usage'', Lit ''Options'', Lit ''Flags'']),
          Lit '':'']"

definition command_line_pattern :: re where
  \<comment> \<open>\<open>/^\s{2,}(\w[\w-]*)\s+(.+)$/\<close>\<close>
  "command_line_pattern =
     seq [Bol, Rep 2 None ws,
          Grp 1 (seq [CSet [WordC], rep0 (CSet [WordC, Chr (CHR ''-'')])]),
          rep1 ws, Grp 2 (rep1 Dot), Eol]"

definition flag_token :: re where
  \<comment> \<open>\<open>-[a-zA-Z0-9-]+\<close>\<close>
  "flag_token =
     seq [Lit ''-'', rep1 (CSet [Rng (CHR ''a'') (CHR ''z''), Rng (CHR ''A'') (CHR ''Z''),
                                 Rng (CHR ''0'') (CHR ''9''), Chr (CHR ''-'')])]"

definition flag_line_pattern :: re where
  \<comment> \<open>\<open>/^\s{2,}(-[a-zA-Z0-9-]+(?:,\s+-[a-zA-Z0-9-]+)*)\s+(.+)$/\<close>\<close>
  "flag_line_pattern =
     seq [Bol, Rep 2 None ws,
          Grp 1 (seq [flag_token, rep0 (seq [Lit '','', rep1 ws, flag_token])]),
          rep1 ws, Grp 2 (rep1 Dot), Eol]"

definition primary_name :: "string list \<Rightarrow> string" where
  \<comment> \<open>\<open>names.find(n => n.startsWith('--')) || names[0]\<close>; \<open>names\<close> comes from a split
      and is never empty.\<close>
  "primary_name names =
     (case find (\<lambda>n. startsWith n ''--'') names of Some n \<Rightarrow> n | None \<Rightarrow> hd names)"

definition parse_line :: "help_state \<Rightarrow> string \<Rightarrow> help_state" where
  "parse_line st line =
     (let trimmed = trim line
      in if re_test True header_pattern trimmed
         then st\<lparr>cur_section := Some (toLowerCase (hd (split_on (CHR '':'') trimmed)))\<rparr>
         else if trimmed = [] then st
         else if cur_section st = Some ''commands''
         then (case re_match False command_line_pattern line of
                 Some caps \<Rightarrow>
                   st\<lparr>r_commands := r_commands st @ [\<lparr>name = grp caps 1, desc = grp caps 2\<rparr>]\<rparr>
               | None \<Rightarrow> st)
         else if cur_section st = Some ''options'' \<or> cur_section st = Some ''flags''
         then (case re_match False flag_line_pattern line of
                 Some caps \<Rightarrow>
                   (let names = map trim (split_on (CHR '','') (grp caps 1));
                        primary = primary_name names
                    in st\<lparr>r_flags := r_flags st @ [\<lparr>name = primary, desc = grp caps 2\<rparr>]\<rparr>)
               | None \<Rightarrow> st)
         else st)"

definition parseHelpOutput :: "string \<Rightarrow> help_state" where
  "parseHelpOutput output =
     fold (\<lambda>line st. parse_line st line) (split_on (CHR 0x0A) output)
       \<lparr>cur_section = None, r_commands = [], r_flags = []\<rparr>"

section \<open>Merge engine\<close>

text \<open>
  Lines 245 to 264. A \<open>Map\<close> keeps its keys in the order they were first set, and \<open>set\<close> on
  a key it has replaces the value in place: an association list with \<^const>\<open>AList.update\<close>.
  \<open>Array.prototype.sort\<close> is stable: for a consistent comparator every stable sort gives
  the sequence that the insertion sort below gives. The comparison is the host's
  \<open>localeCompare\<close>, which depends on the locale of the process and is a parameter here.
\<close>

definition map_set :: "string \<Rightarrow> string \<Rightarrow> (string \<times> string) list \<Rightarrow> (string \<times> string) list" where
  "map_set k v m = AList.update k v m"

fun insert_by :: "('a \<Rightarrow> 'a \<Rightarrow> int) \<Rightarrow> 'a \<Rightarrow> 'a list \<Rightarrow> 'a list" where
  "insert_by cmp x [] = [x]"
| "insert_by cmp x (y # ys) = (if cmp x y \<le> 0 then x # y # ys else y # insert_by cmp x ys)"

definition array_sort :: "('a \<Rightarrow> 'a \<Rightarrow> int) \<Rightarrow> 'a list \<Rightarrow> 'a list" where
  "array_sort cmp xs = foldr (insert_by cmp) xs []"

definition merge_map :: "string list \<Rightarrow> entry list \<Rightarrow> (string \<times> string) list" where
  "merge_map statics dynamics =
     fold (\<lambda>e m. map_set (name e) (desc e) m) dynamics
       (fold (\<lambda>k m. map_set k [] m) statics [])"

definition merge :: "(string \<Rightarrow> string \<Rightarrow> int) \<Rightarrow> string list \<Rightarrow> entry list \<Rightarrow> entry list" where
  "merge localeCompare statics dynamics =
     array_sort (\<lambda>a b. localeCompare (name a) (name b))
       (map (\<lambda>(n, d). \<lparr>name = n, desc = d\<rparr>) (merge_map statics dynamics))"

text \<open>
  What the statements about the order need of the comparison: the contract the host language
  asks of a comparator (any two names are comparable, and the order is transitive), and that
  it tells different names apart.
\<close>

definition consistent_compare :: "(string \<Rightarrow> string \<Rightarrow> int) \<Rightarrow> bool" where
  "consistent_compare cmp =
     ((\<forall>a b. cmp a b \<le> 0 \<or> cmp b a \<le> 0) \<and>
      (\<forall>a b c. cmp a b \<le> 0 \<and> cmp b c \<le> 0 \<longrightarrow> cmp a c \<le> 0))"

definition separating_compare :: "(string \<Rightarrow> string \<Rightarrow> int) \<Rightarrow> bool" where
  "separating_compare cmp = (\<forall>a b. cmp a b = 0 \<longrightarrow> a = b)"

text \<open>
  A concrete \<open>localeCompare\<close> for evaluation: the default collation of the host (the root
  order of the Unicode collation algorithm, which English locales use) on the characters a
  command or flag name is made of. Names are compared by their letters first, the letter case
  ignored, with \<open>_\<close> before \<open>-\<close> before the digits before the letters; names that differ in
  letter case only are then ordered small letter first. Characters other than letters, digits,
  \<open>_\<close> and \<open>-\<close> are placed after these in the order of their codes, which is not the
  host's order for them.
\<close>

definition collation_primary :: "char \<Rightarrow> nat" where
  "collation_primary c =
     (let n = of_char c :: nat
      in if n = 95 then 0
         else if n = 45 then 1
         else if 48 \<le> n \<and> n \<le> 57 then 256 + n
         else if 97 \<le> n \<and> n \<le> 122 then 512 + n
         else if 65 \<le> n \<and> n \<le> 90 then 544 + n
         else 1024 + n)"

definition collation_case :: "char \<Rightarrow> nat" where
  "collation_case c = (let n = of_char c :: nat in if 65 \<le> n \<and> n \<le> 90 then 1 else 0)"

definition collation_key :: "string \<Rightarrow> nat list \<times> nat list" where
  "collation_key s = (map collation_primary s, map collation_case s)"

definition localeCompare_root :: "string \<Rightarrow> string \<Rightarrow> int" where
  "localeCompare_root a b =
     (if collation_key a < collation_key b then - 1
      else if collation_key a = collation_key b then 0 else 1)"

section \<open>The host and the project manifest\<close>

text \<open>
  What the script takes from Node.js is a parameter of the model: the working directory, the
  functions of \<open>path\<close>, \<open>JSON.parse\<close> on the text of \<open>package.json\<close> (\<open>None\<close> when it
  throws), the standard output of the run \<open>node <main file> --help\<close> in the project directory
  (\<open>None\<close> when the run fails or yields no output object) and \<open>localeCompare\<close>. The run of
  the target program is taken to leave the files of the project alone.

  The file system maps a path to a directory, a readable file with its text, or a file that
  cannot be read.
\<close>

datatype node = Dir | File string | Unreadable

type_synonym filesystem = "(string \<times> node) list"

definition existsSync :: "filesystem \<Rightarrow> string \<Rightarrow> bool" where
  "existsSync fs p = (map_of fs p \<noteq> None)"

definition readFileSync :: "filesystem \<Rightarrow> string \<Rightarrow> string option" where
  \<comment> \<open>\<open>None\<close>: the call throws.\<close>
  "readFileSync fs p = (case map_of fs p of Some (File text) \<Rightarrow> Some text | _ \<Rightarrow> None)"

definition writeFileSync :: "filesystem \<Rightarrow> string \<Rightarrow> string \<Rightarrow> filesystem option" where
  \<comment> \<open>\<open>None\<close>: the call throws, the path is a directory.\<close>
  "writeFileSync fs p text =
     (case map_of fs p of
        Some Dir \<Rightarrow> None
      | _ \<Rightarrow> Some (AList.update p (File text) fs))"

text \<open>
  The fields of the manifest the script reads, with the types of the data model: strings,
  the objects \<open>scripts\<close> and \<open>bin\<close> as the list of their properties in the order of
  enumeration, \<open>keywords\<close> as a list; a field that is absent is \<open>None\<close>. The script
  looks at the runtime type of \<open>repository\<close> itself, so that field is kept as a value of any
  JSON type (a number of such a value is taken to be an integer).
\<close>

datatype jsval = JNull | JBool bool | JNum int | JStr string | JArr "jsval list"
  | JObj "(string \<times> jsval) list"

record manifest =
  pkg_name :: "string option"
  pkg_description :: "string option"
  pkg_version :: "string option"
  pkg_license :: "string option"
  pkg_author :: "string option"
  pkg_scripts :: "(string \<times> string) list option"
  pkg_bin :: "(string \<times> string) list option"
  pkg_keywords :: "string list option"
  pkg_main :: "string option"
  pkg_repository :: "jsval option"

record host =
  cwd :: string
  path_resolve :: "string \<Rightarrow> string"
  path_join :: "string list \<Rightarrow> string"
  path_basename :: "string \<Rightarrow> string"
  JSON_parse :: "string \<Rightarrow> manifest option"
  spawn_help :: "string \<Rightarrow> string \<Rightarrow> string option"
  localeCompare :: "string \<Rightarrow> string \<Rightarrow> int"

record analysis =
  a_name :: string
  a_description :: string
  a_version :: string
  a_license :: string
  a_author :: string
  a_scripts :: "(string \<times> string) list"
  a_bin :: "(string \<times> string) list"
  a_keywords :: "string list"
  a_main :: string
  a_commands :: "entry list"
  a_flags :: "entry list"
  a_usage :: "string list"
  a_github :: "(string \<times> string) option"

section \<open>Command line of the tool\<close>

text \<open>Lines 7 to 19. The object \<open>flags\<close> has these five properties and no other.\<close>

record cli_flags =
  opt_help :: bool
  opt_json :: bool
  opt_force :: bool
  opt_stdout :: bool
  opt_badges :: bool

definition parse_flags :: "string list \<Rightarrow> cli_flags" where
  "parse_flags args =
     \<lparr>opt_help = (''--help'' \<in> set args \<or> ''-h'' \<in> set args),
      opt_json = (''--json'' \<in> set args \<or> ''-j'' \<in> set args),
      opt_force = (''--force'' \<in> set args \<or> ''-f'' \<in> set args),
      opt_stdout = (''--stdout'' \<in> set args \<or> ''-s'' \<in> set args),
      opt_badges = (''--badges'' \<in> set args \<or> ''-b'' \<in> set args)\<rparr>"

definition flags_human :: "cli_flags \<Rightarrow> bool" where
  \<comment> \<open>\<open>flags.human\<close>: the object has no such property, the read gives \<open>undefined\<close>.\<close>
  "flags_human flags = False"

definition flags_H :: "cli_flags \<Rightarrow> bool" where
  \<comment> \<open>\<open>flags.H\<close>: as \<open>flags.human\<close>.\<close>
  "flags_H flags = False"

definition targetDir :: "host \<Rightarrow> string list \<Rightarrow> string" where
  \<comment> \<open>\<open>args.find(a => !a.startsWith('-')) || process.cwd()\<close>\<close>
  "targetDir h args =
     (case find (\<lambda>a. \<not> startsWith a ''-'') args of
        Some a \<Rightarrow> if a = [] then cwd h else a
      | None \<Rightarrow> cwd h)"

definition readme_guard :: "cli_flags \<Rightarrow> bool \<Rightarrow> bool" where
  \<comment> \<open>The condition of line 61; the second argument is \<open>fs.existsSync(readmePath)\<close>.\<close>
  "readme_guard flags readme_exists =
     (readme_exists \<and> \<not> opt_force flags \<and> \<not> opt_stdout flags
      \<and> \<not> (\<not> flags_human flags \<and> \<not> flags_H flags))"

definition readme_guard_legacy :: "cli_flags \<Rightarrow> bool \<Rightarrow> bool" where
  \<comment> \<open>The same check in the older variant of the script, \<open>src/unnamed/part_001\<close> line 59.\<close>
  "readme_guard_legacy flags readme_exists =
     (readme_exists \<and> \<not> opt_force flags \<and> \<not> opt_stdout flags \<and> \<not> opt_json flags)"

section \<open>Repository identifier\<close>

text \<open>Lines 98 to 119.\<close>

datatype error = TypeError | SystemError

definition github_pattern :: re where
  \<comment> \<open>\<open>/github\.com[\/:]([^\/]+)\/([^\/\.]+)/\<close>\<close>
  "github_pattern =
     seq [Lit ''github.com'', CSet [Chr (CHR ''/''), Chr (CHR '':'')],
          Grp 1 (rep1 (NSet [Chr (CHR ''/'')])), Lit ''/'',
          Grp 2 (rep1 (NSet [Chr (CHR ''/''), Chr (CHR ''.'')]))]"

definition gitconfig_pattern :: re where
  \<comment> \<open>\<open>/github\.com[\/:]([^\/]+)\/([^\/\.\s]+)/\<close>\<close>
  "gitconfig_pattern =
     seq [Lit ''github.com'', CSet [Chr (CHR ''/''), Chr (CHR '':'')],
          Grp 1 (rep1 (NSet [Chr (CHR ''/'')])), Lit ''/'',
          Grp 2 (rep1 (NSet [Chr (CHR ''/''), Chr (CHR ''.''), SpaceC]))]"

fun truthy :: "jsval \<Rightarrow> bool" where
  "truthy JNull = False"
| "truthy (JBool b) = b"
| "truthy (JNum n) = (n \<noteq> 0)"
| "truthy (JStr s) = (s \<noteq> [])"
| "truthy (JArr xs) = True"
| "truthy (JObj kvs) = True"

fun repository_url :: "jsval \<Rightarrow> jsval option" where
  \<comment> \<open>\<open>typeof pkg.repository === 'string' ? pkg.repository : pkg.repository.url\<close>, for a
      truthy \<open>pkg.repository\<close>; \<open>None\<close> is \<open>undefined\<close>.\<close>
  "repository_url (JStr s) = Some (JStr s)"
| "repository_url (JObj kvs) = map_of kvs ''url''"
| "repository_url _ = None"

fun match_repo :: "jsval option \<Rightarrow> error + (string \<times> string) option" where
  \<comment> \<open>\<open>repo?.match(...)\<close>: \<open>undefined\<close> and \<open>null\<close> give no match, a string is searched,
      any other value has no method \<open>match\<close> and the call throws.\<close>
  "match_repo None = Inr None"
| "match_repo (Some JNull) = Inr None"
| "match_repo (Some (JStr repo)) =
     Inr (map_option (\<lambda>caps. (grp caps 1, grp caps 2)) (re_match False github_pattern repo))"
| "match_repo (Some _) = Inl TypeError"

definition github_from_manifest :: "manifest \<Rightarrow> error + (string \<times> string) option" where
  "github_from_manifest pkg =
     (case pkg_repository pkg of
        None \<Rightarrow> Inr None
      | Some r \<Rightarrow> if truthy r then match_repo (repository_url r) else Inr None)"

fun replace_first :: "string \<Rightarrow> string \<Rightarrow> string \<Rightarrow> string" where
  \<comment> \<open>\<open>s.replace(pat, rep)\<close> for a string \<open>pat\<close>: the first occurrence only.\<close>
  "replace_first pat rep [] = (if pat = [] then rep else [])"
| "replace_first pat rep (c # s) =
     (if startsWith (c # s) pat then rep @ drop (length pat) (c # s)
      else c # replace_first pat rep s)"

definition github_from_git :: "host \<Rightarrow> filesystem \<Rightarrow> string \<Rightarrow> (string \<times> string) option" where
  \<comment> \<open>The block under \<open>try\<close>: a read that throws is caught and gives nothing.\<close>
  "github_from_git h fs absPath =
     (let gitConfigPath = path_join h [absPath, ''.git'', ''config'']
      in if existsSync fs gitConfigPath
         then (case readFileSync fs gitConfigPath of
                 None \<Rightarrow> None
               | Some gitConfig \<Rightarrow>
                   map_option (\<lambda>caps. (grp caps 1, replace_first ''.git'' [] (grp caps 2)))
                     (re_match False gitconfig_pattern gitConfig))
         else None)"

definition detect_github :: "host \<Rightarrow> filesystem \<Rightarrow> string \<Rightarrow> manifest \<Rightarrow> error + (string \<times> string) option" where
  "detect_github h fs absPath pkg =
     (case github_from_manifest pkg of
        Inl e \<Rightarrow> Inl e
      | Inr (Some g) \<Rightarrow> Inr (Some g)
      | Inr None \<Rightarrow> Inr (github_from_git h fs absPath))"


section \<open>Renderer\<close>

text \<open>Lines 279 to 370: the text of the README, built from the analysis.\<close>

definition backtick :: string where "backtick = [CHR 0x60]"
definition fence :: string where "fence = backtick @ backtick @ backtick"

definition table_row :: "entry \<Rightarrow> string" where
  "table_row e = ''| '' @ backtick @ name e @ backtick @ '' | '' @ desc e @ '' |\<newline>''"

definition render_badges :: "cli_flags \<Rightarrow> analysis \<Rightarrow> string" where
  "render_badges flags a =
     (case a_github a of
        Some (user, repo) \<Rightarrow>
          if opt_badges flags
          then ''![License](https://img.shields.io/github/license/'' @ user @ ''/'' @ repo @ '')\<newline>''
             @ ''![Version](https://img.shields.io/github/package-json/v/'' @ user @ ''/'' @ repo @ '')\<newline>''
             @ ''![Stars](https://img.shields.io/github/stars/'' @ user @ ''/'' @ repo @ '')\<newline>\<newline>''
          else []
      | None \<Rightarrow> [])"

definition render_installation :: "analysis \<Rightarrow> string" where
  "render_installation a =
     ''## Installation\<newline>\<newline>'' @ fence @ ''bash\<newline>''
     @ (if map fst (a_bin a) \<noteq> []
        then ''npm install -g '' @ a_name a @ ''\<newline>'' @ ''# or\<newline>'' @ ''npx '' @ a_name a @ ''\<newline>''
        else ''npm install '' @ a_name a @ ''\<newline>'')
     @ fence @ ''\<newline>\<newline>''"

definition render_usage :: "analysis \<Rightarrow> string" where
  "render_usage a =
     ''## Usage\<newline>\<newline>''
     @ (case map fst (a_bin a) of
          mainBin # _ \<Rightarrow> fence @ ''bash\<newline>'' @ mainBin @ '' --help\<newline>'' @ fence @ ''\<newline>\<newline>''
        | [] \<Rightarrow> [])"

definition render_commands :: "analysis \<Rightarrow> string" where
  "render_commands a =
     (if a_commands a \<noteq> []
      then ''### Commands\<newline>\<newline>'' @ ''| Command | Description |\<newline>''
         @ ''|---------|-------------|\<newline>''
         @ concat (map table_row (a_commands a)) @ ''\<newline>''
      else [])"

definition render_flags :: "analysis \<Rightarrow> string" where
  "render_flags a =
     (if a_flags a \<noteq> []
      then ''### Options\<newline>\<newline>'' @ ''| Option | Description |\<newline>''
         @ ''|--------|-------------|\<newline>''
         @ concat (map table_row (a_flags a)) @ ''\<newline>''
      else [])"

definition render_examples :: "analysis \<Rightarrow> string" where
  "render_examples a =
     ''## Examples\<newline>\<newline>'' @ fence @ ''bash\<newline>''
     @ (case map fst (a_bin a) of
          mainBin # _ \<Rightarrow>
            (case a_commands a of
               c # _ \<Rightarrow> ''# '' @ (if desc c \<noteq> [] then desc c else name c) @ ''\<newline>''
                        @ mainBin @ '' '' @ name c @ ''\<newline>''
             | [] \<Rightarrow> mainBin @ ''\<newline>'')
        | [] \<Rightarrow> ''node '' @ a_main a @ ''\<newline>'')
     @ fence @ ''\<newline>\<newline>''"

definition render_scripts :: "analysis \<Rightarrow> string" where
  "render_scripts a =
     (let usefulScripts = filter (\<lambda>s. s \<notin> set [''test'']) (map fst (a_scripts a))
      in if usefulScripts \<noteq> []
         then ''## Development\<newline>\<newline>'' @ fence @ ''bash\<newline>''
            @ concat (map (\<lambda>script. ''npm run '' @ script @ ''\<newline>'') (take 3 usefulScripts))
            @ fence @ ''\<newline>\<newline>''
         else [])"

definition render_license :: "analysis \<Rightarrow> string" where
  "render_license a =
     ''## License\<newline>\<newline>'' @ a_license a
     @ (if a_author a \<noteq> [] then '' '' @ [CHR 0xA9] @ '' '' @ a_author a else []) @ ''\<newline>''"

definition render :: "cli_flags \<Rightarrow> analysis \<Rightarrow> string" where
  "render flags a =
     ''# '' @ a_name a @ ''\<newline>\<newline>''
     @ a_description a @ ''\<newline>\<newline>''
     @ render_badges flags a
     @ render_installation a
     @ render_usage a
     @ render_commands a
     @ render_flags a
     @ render_examples a
     @ render_scripts a
     @ render_license a"

section \<open>The script\<close>

text \<open>
  What a run leaves behind: the exit code, what it printed, and the file system. A run can
  also die of an exception nobody catches, or never end.
\<close>

datatype message =
    HelpText
  | Stderr string
  | StdoutJson analysis
  | Stdout string
  | GeneratedReadme nat
  | PackageInfo string string
  | CommandNames "string list"
  | GithubInfo string string

datatype result =
    Exit nat "message list" filesystem
  | Uncaught error
  | Hangs

definition or_default :: "string option \<Rightarrow> string \<Rightarrow> string" where
  \<comment> \<open>\<open>x || d\<close> for a string \<open>x\<close> that may be absent: the empty string is falsy too.\<close>
  "or_default x d = (case x of Some s \<Rightarrow> if s = [] then d else s | None \<Rightarrow> d)"

definition list_default :: "'a list option \<Rightarrow> 'a list" where
  "list_default x = (case x of Some xs \<Rightarrow> xs | None \<Rightarrow> [])"

definition dynamic_probe :: "host \<Rightarrow> filesystem \<Rightarrow> string \<Rightarrow> string \<Rightarrow> help_state" where
  \<comment> \<open>Lines 159 to 177.\<close>
  "dynamic_probe h fs absPath mainFile =
     (let dynamicData = \<lparr>cur_section = None, r_commands = [], r_flags = []\<rparr>
      in if existsSync fs mainFile
         then (case spawn_help h mainFile absPath of
                 Some out \<Rightarrow> if out \<noteq> [] then parseHelpOutput out else dynamicData
               | None \<Rightarrow> dynamicData)
         else dynamicData)"

fun scan_files :: "filesystem \<Rightarrow> string list \<Rightarrow> scan_state \<Rightarrow> scan_state option" where
  \<comment> \<open>Lines 189 to 241: a file that is missing is skipped, a read that throws is caught.\<close>
  "scan_files fs [] st = Some st"
| "scan_files fs (entryPath # ps) st =
     (if existsSync fs entryPath
      then (case readFileSync fs entryPath of
              None \<Rightarrow> scan_files fs ps st
            | Some code \<Rightarrow>
                (case scan_code code st of
                   None \<Rightarrow> None
                 | Some st' \<Rightarrow> scan_files fs ps st'))
      else scan_files fs ps st)"

definition finish :: "cli_flags \<Rightarrow> filesystem \<Rightarrow> string \<Rightarrow> analysis \<Rightarrow> result" where
  \<comment> \<open>Lines 272 to 385: the JSON output, or the README printed or written.\<close>
  "finish flags fs readmePath a =
     (if \<not> flags_human flags \<and> \<not> flags_H flags
      then Exit 0 [StdoutJson a] fs
      else
        (let readme = render flags a
         in if opt_stdout flags then Exit 0 [Stdout readme] fs
            else (case writeFileSync fs readmePath readme of
                    None \<Rightarrow> Uncaught SystemError
                  | Some fs' \<Rightarrow>
                      Exit 0
                        ([GeneratedReadme (length readme), PackageInfo (a_name a) (a_version a)]
                         @ (if a_commands a \<noteq> [] then [CommandNames (map name (a_commands a))] else [])
                         @ (case a_github a of Some (user, repo) \<Rightarrow> [GithubInfo user repo] | None \<Rightarrow> []))
                        fs')))"

definition analyse :: "host \<Rightarrow> filesystem \<Rightarrow> cli_flags \<Rightarrow> string \<Rightarrow> string \<Rightarrow> manifest \<Rightarrow> result" where
  \<comment> \<open>Lines 81 to 270, then \<open>finish\<close>.\<close>
  "analyse h fs flags absPath readmePath pkg =
     (let a0 = \<lparr>a_name = or_default (pkg_name pkg) (path_basename h absPath),
                a_description = or_default (pkg_description pkg) ''A CLI tool'',
                a_version = or_default (pkg_version pkg) ''1.0.0'',
                a_license = or_default (pkg_license pkg) ''MIT'',
                a_author = or_default (pkg_author pkg) [],
                a_scripts = list_default (pkg_scripts pkg),
                a_bin = list_default (pkg_bin pkg),
                a_keywords = list_default (pkg_keywords pkg),
                a_main = or_default (pkg_main pkg) ''index.js'',
                a_commands = [], a_flags = [], a_usage = [], a_github = None\<rparr>
      in case detect_github h fs absPath pkg of
           Inl e \<Rightarrow> Uncaught e
         | Inr github \<Rightarrow>
             (let mainFile = path_join h [absPath, a_main a0];
                  dynamicData = dynamic_probe h fs absPath mainFile;
                  filesToAnalyze =
                    fold set_add (mainFile # map (\<lambda>binPath. path_join h [absPath, binPath])
                                              (map snd (a_bin a0))) []
              in case scan_files fs filesToAnalyze
                        \<lparr>staticCommands = [], staticFlags = [], usage = []\<rparr> of
                   None \<Rightarrow> Hangs
                 | Some st \<Rightarrow>
                     finish flags fs readmePath
                       (a0\<lparr>a_github := github,
                           a_usage := usage st,
                           a_commands := merge (localeCompare h) (staticCommands st) (r_commands dynamicData),
                           a_flags := merge (localeCompare h) (staticFlags st) (r_flags dynamicData)\<rparr>)))"

definition run :: "host \<Rightarrow> filesystem \<Rightarrow> string list \<Rightarrow> result" where
  \<comment> \<open>Lines 7 to 79, then \<open>analyse\<close>.\<close>
  "run h fs args =
     (let flags = parse_flags args
      in if opt_help flags then Exit 0 [HelpText] fs
         else
           (let absPath = path_resolve h (targetDir h args)
            in if \<not> existsSync fs absPath
               then Exit 1 [Stderr (''Error: Directory not found: '' @ absPath)] fs
               else
                 (let readmePath = path_join h [absPath, ''README.md'']
                  in if readme_guard flags (existsSync fs readmePath)
                     then Exit 1 [Stderr ''Error: README.md already exists. Use --force to overwrite or --stdout to preview.''] fs
                     else
                       (let pkgPath = path_join h [absPath, ''package.json'']
                        in if \<not> existsSync fs pkgPath
                           then Exit 1 [Stderr ''Error: No package.json found. This tool requires a Node.js project.''] fs
                           else
                             (case readFileSync fs pkgPath of
                                None \<Rightarrow> Exit 1 [Stderr ''Error: Invalid package.json''] fs
                              | Some text \<Rightarrow>
                                  (case JSON_parse h text of
                                     None \<Rightarrow> Exit 1 [Stderr ''Error: Invalid package.json''] fs
                                   | Some pkg \<Rightarrow> analyse h fs flags absPath readmePath pkg))))))"


section \<open>Notions used in the statements and proofs\<close>

text \<open>
  A matcher only moves forward: \<open>consumed st st'\<close> says that \<open>st'\<close> is \<open>st\<close> after some
  characters of the text were read. \<open>min_len r\<close> is a lower bound on the number of
  characters a match of \<open>r\<close> reads.
\<close>

definition consumed :: "mstate \<Rightarrow> mstate \<Rightarrow> bool" where
  "consumed st st' = (\<exists>u. fst (snd st) = u @ fst (snd st') \<and> fst st' = fst st + length u)"

fun min_len :: "re \<Rightarrow> nat" where
  "min_len Eps = 0"
| "min_len (Lit p) = length p"
| "min_len (CSet cs) = 1"
| "min_len (NSet cs) = 1"
| "min_len Dot = 1"
| "min_len (Seq a b) = min_len a + min_len b"
| "min_len (Alt a b) = min (min_len a) (min_len b)"
| "min_len (Rep mn mx r) = (case mx of None \<Rightarrow> mn | Some k \<Rightarrow> min mn k) * min_len r"
| "min_len (Grp n r) = min_len r"
| "min_len Bol = 0"
| "min_len Eol = 0"

text \<open>The state the scan of the entry files starts from, and the flag names of claim C10.\<close>

definition empty_scan :: scan_state where
  "empty_scan = \<lparr>staticCommands = [], staticFlags = [], usage = []\<rparr>"

definition never_flags :: "string list" where
  "never_flags = [''--help'', ''-h'', ''-'', ''--'', ''---'', ''-1'']"

text \<open>
  The manifests whose \<open>repository\<close> keeps to the types of a package manifest: a string, or
  an object whose \<open>url\<close> is absent, \<open>null\<close> or a string. Then a host for the examples, with
  paths of plain segments (so that \<open>path.join\<close> puts a \<open>/\<close> between them), a target program
  that prints no help and the collation above; and a manifest with no field at all.
\<close>

fun url_typed :: "jsval \<Rightarrow> bool" where
  "url_typed (JObj kvs) =
     (case map_of kvs ''url'' of
        None \<Rightarrow> True
      | Some JNull \<Rightarrow> True
      | Some (JStr u) \<Rightarrow> True
      | Some _ \<Rightarrow> False)"
| "url_typed _ = True"

definition repository_typed :: "manifest \<Rightarrow> bool" where
  "repository_typed pkg = (case pkg_repository pkg of None \<Rightarrow> True | Some r \<Rightarrow> url_typed r)"

definition join_paths :: "string list \<Rightarrow> string" where
  "join_paths ps = (case ps of [] \<Rightarrow> ''.'' | p # qs \<Rightarrow> foldl (\<lambda>a b. a @ ''/'' @ b) p qs)"

definition example_host :: "(string \<Rightarrow> manifest option) \<Rightarrow> host" where
  "example_host parse =
     \<lparr>cwd = ''/proj'',
      path_resolve = (\<lambda>p. if startsWith p ''/'' then p else ''/proj/'' @ p),
      path_join = join_paths,
      path_basename = (\<lambda>p. last (split_on (CHR ''/'') p)),
      JSON_parse = parse,
      spawn_help = (\<lambda>mainFile dir. None),
      localeCompare = localeCompare_root\<rparr>"

definition no_fields :: manifest where
  "no_fields =
     \<lparr>pkg_name = None, pkg_description = None, pkg_version = None, pkg_license = None,
      pkg_author = None, pkg_scripts = None, pkg_bin = None, pkg_keywords = None,
      pkg_main = None, pkg_repository = None\<rparr>"

definition typed_example :: manifest where
  "typed_example =
     no_fields\<lparr>pkg_repository :=
       Some (JObj [(''type'', JStr ''git''), (''url'', JStr ''git+ssh://git@example.org/acme/widgets.git'')])\<rparr>"

text \<open>
  Two projects for the runs below. The first has a \<open>README.md\<close> and a manifest with a name;
  the second is the project of the end-to-end scenario: a manifest with the name \<open>tool\<close> and
  the bin entry \<open>cli.js\<close>, a \<open>cli.js\<close> with a \<open>case 'build':\<close>, no \<open>README.md\<close>.
  \<open>JSON.parse\<close> gives each manifest text the object it denotes. \<open>tool_analysis\<close> is the
  analysis of the second project.
\<close>

definition guarded_project :: filesystem where
  "guarded_project =
     [(''/proj'', Dir),
      (''/proj/README.md'', File ''# mine''),
      (''/proj/package.json'', File ''{\"name\":\"tool\"}'')]"

definition guarded_parse :: "string \<Rightarrow> manifest option" where
  "guarded_parse text =
     (if text = ''{\"name\":\"tool\"}'' then Some (no_fields\<lparr>pkg_name := Some ''tool''\<rparr>) else None)"

definition tool_project :: filesystem where
  "tool_project =
     [(''/proj'', Dir),
      (''/proj/package.json'', File ''{\"name\":\"tool\",\"bin\":{\"tool\":\"cli.js\"}}''),
      (''/proj/cli.js'', File ''switch (cmd) {
  case 'build':
    build();
}'')]"

definition tool_parse :: "string \<Rightarrow> manifest option" where
  "tool_parse text =
     (if text = ''{\"name\":\"tool\",\"bin\":{\"tool\":\"cli.js\"}}''
      then Some (no_fields\<lparr>pkg_name := Some ''tool'', pkg_bin := Some [(''tool'', ''cli.js'')]\<rparr>)
      else None)"

definition tool_analysis :: analysis where
  "tool_analysis =
     \<lparr>a_name = ''tool'', a_description = ''A CLI tool'', a_version = ''1.0.0'',
      a_license = ''MIT'', a_author = [], a_scripts = [], a_bin = [(''tool'', ''cli.js'')],
      a_keywords = [], a_main = ''index.js'',
      a_commands = [\<lparr>name = ''build'', desc = []\<rparr>], a_flags = [], a_usage = [],
      a_github = None\<rparr>"

text \<open>
  The canonical name of a flag line in the words of the specification: among the
  alternatives the long form, which starts with two dashes, and the first alternative when
  there is no long form.
\<close>

definition canonical_flag_name :: "string list \<Rightarrow> string" where
  "canonical_flag_name alternatives =
     (case filter (\<lambda>n. startsWith n ''--'') alternatives of
        long # _ \<Rightarrow> long
      | [] \<Rightarrow> (case alternatives of first # _ \<Rightarrow> first | [] \<Rightarrow> []))"

text \<open>
  A letter of the header words, for the comparison without letter case: every character that
  has the capital of the letter has its small letter too, and is no colon.
\<close>

definition header_letter :: "char \<Rightarrow> bool" where
  "header_letter l =
     (\<forall>c. \<not> (toUpperChar c = toUpperChar l \<and> \<not> (toLowerChar c = toLowerChar l \<and> c \<noteq> CHR '':'')))"

text \<open>
  The parser in the words of the specification. \<open>help_lines\<close> are the lines of a help
  text. A line is a header when its trimmed text matches the header pattern, and
  \<open>header_name\<close> is the section it names. \<open>cursor_after lines\<close> is the section in force
  after the lines: the one that the last header among them names, and none when there is
  no header among them. \<open>command_records\<close> and \<open>flag_records\<close> are the records that one
  line yields under a cursor: none for a header and for a blank line; under the section
  \<open>commands\<close> the record of a line that matches the pattern of command lines; under
  \<open>options\<close> or \<open>flags\<close> the record of a line that matches the pattern of flag lines, with
  the canonical name among its alternatives.
\<close>

definition help_lines :: "string \<Rightarrow> string list" where
  "help_lines output = split_on (CHR 0x0A) output"

definition is_header :: "string \<Rightarrow> bool" where
  "is_header line = re_test True header_pattern (trim line)"

definition header_name :: "string \<Rightarrow> string" where
  "header_name line = toLowerCase (hd (split_on (CHR '':'') (trim line)))"

definition cursor_after :: "string list \<Rightarrow> string option" where
  "cursor_after lines =
     (case rev (filter is_header lines) of
        [] \<Rightarrow> None
      | h # earlier \<Rightarrow> Some (header_name h))"

definition command_records :: "string option \<Rightarrow> string \<Rightarrow> entry list" where
  "command_records cursor line =
     (if is_header line then []
      else if trim line = [] then []
      else if cursor = Some ''commands''
      then (case re_match False command_line_pattern line of
              None \<Rightarrow> []
            | Some caps \<Rightarrow> [\<lparr>name = grp caps 1, desc = grp caps 2\<rparr>])
      else [])"

definition flag_records :: "string option \<Rightarrow> string \<Rightarrow> entry list" where
  "flag_records cursor line =
     (if is_header line then []
      else if trim line = [] then []
      else if cursor = Some ''options'' \<or> cursor = Some ''flags''
      then (case re_match False flag_line_pattern line of
              None \<Rightarrow> []
            | Some caps \<Rightarrow>
                [\<lparr>name = canonical_flag_name (map trim (split_on (CHR '','') (grp caps 1))),
                  desc = grp caps 2\<rparr>])
      else [])"

text \<open>
  The cursor as the loop of the parser carries it from line to line, starting from \<open>c\<close>.
\<close>

fun cursor_from :: "string option \<Rightarrow> string list \<Rightarrow> string option" where
  "cursor_from c [] = c"
| "cursor_from c (l # ls) = cursor_from (if is_header l then Some (header_name l) else c) ls"

text \<open>
  Two help texts for the examples: a part of the help text of the tool itself, and a short
  text with a section of commands, a header in capitals, a flag with no long form and a
  line that is no flag line.
\<close>

definition own_help :: string where
  "own_help = ''
Usage: claw-readme [path] [options]

Options:
  -h, --help     Show this help message
  -j, --json     Output analysis as JSON (no file write)
  -f, --force    Overwrite existing README.md
  -s, --stdout   Print README to stdout (no file write)
  -b, --badges   Include GitHub badges

Examples:
  claw-readme --force            # Overwrite existing README
''"

definition short_help :: string where
  "short_help = ''Commands:
  init      Create a config

FLAGS: (optional)
  -v        Verbose
  -q, -s    Quiet
  plain     text''"


section \<open>The matcher moves forward, and the scanning loops end\<close>

declare exec_all.simps [simp del]

lemma lit_prefix_take: "lit_prefix ci p s \<Longrightarrow> length p \<le> length s"
  by (induction ci p s rule: lit_prefix.induct) (auto split: if_splits)

lemma consumed_refl: "consumed st st"
  by (simp add: consumed_def)

lemma consumed_trans: "consumed st st' \<Longrightarrow> consumed st' st'' \<Longrightarrow> consumed st st''"
  unfolding consumed_def by (metis append.assoc length_append add.assoc)

lemma re_run_Rep_cases:
  assumes "st' \<in> set (re_run ci (Rep mn mx r) (i, s, caps))" and "mx \<noteq> Some 0"
  shows "(\<exists>j1 s1 c1. (j1, s1, c1) \<in> set (re_run ci r (i, s, caps))
            \<and> \<not> (mn = 0 \<and> \<not> length s1 < length s)
            \<and> st' \<in> set (re_run ci (Rep (mn - 1) (dec_max mx) r) (j1, s1, c1)))
         \<or> (mn = 0 \<and> st' = (i, s, caps))"
  using assms by (subst (asm) re_run.simps(8)) (auto split: if_splits)

lemma re_run_consumed: "st' \<in> set (re_run ci r st) \<Longrightarrow> consumed st st'"
proof (induction ci r st arbitrary: st' rule: re_run.induct)
  case (1 ci st)
  then show ?case by (simp add: consumed_refl)
next
  case (2 ci p i s caps)
  then have "length p \<le> length s" "st' = (i + length p, drop (length p) s, caps)"
    by (auto split: if_splits dest: lit_prefix_take)
  then show ?case unfolding consumed_def by (intro exI [of _ "take (length p) s"]) simp
next
  case (3 ci cs i s caps)
  then show ?case by (auto simp: consumed_def split: list.splits if_splits)
next
  case (4 ci cs i s caps)
  then show ?case by (auto simp: consumed_def split: list.splits if_splits)
next
  case (5 ci i s caps)
  then show ?case by (auto simp: consumed_def split: list.splits if_splits)
next
  case (6 ci a b st)
  from "6.prems" obtain st1 where
    m1: "st1 \<in> set (re_run ci a st)" and m2: "st' \<in> set (re_run ci b st1)"
    by auto
  from "6.IH"(1) [OF m1] "6.IH"(2) [OF m1 m2] show ?case by (rule consumed_trans)
next
  case (7 ci a b st)
  from "7.prems" have "st' \<in> set (re_run ci a st) \<or> st' \<in> set (re_run ci b st)" by simp
  then show ?case
  proof
    assume "st' \<in> set (re_run ci a st)"
    then show ?thesis by (rule "7.IH"(1))
  next
    assume "st' \<in> set (re_run ci b st)"
    then show ?thesis by (rule "7.IH"(2))
  qed
next
  case (8 ci mn mx r i s caps)
  show ?case
  proof (cases "mx = Some 0")
    case True
    with "8.prems" show ?thesis by (simp add: consumed_refl re_run.simps(8))
  next
    case False
    from re_run_Rep_cases [OF "8.prems" False] consider
      (more) j1 s1 c1 where "(j1, s1, c1) \<in> set (re_run ci r (i, s, caps))"
        "\<not> (mn = 0 \<and> \<not> length s1 < length s)"
        "st' \<in> set (re_run ci (Rep (mn - 1) (dec_max mx) r) (j1, s1, c1))"
      | (stop) "mn = 0" "st' = (i, s, caps)"
      by blast
    then show ?thesis
    proof cases
      case more
      from "8.IH"(1) [OF False more(1)] "8.IH"(2) [OF False more(1) refl refl more(2) more(3)]
      show ?thesis by (rule consumed_trans)
    next
      case stop
      then show ?thesis by (simp add: consumed_refl)
    qed
  qed
next
  case (9 ci n r i s caps)
  then show ?case by (auto simp: consumed_def)
next
  case (10 ci i s caps)
  then show ?case by (auto simp: consumed_refl split: if_splits)
next
  case (11 ci i s caps)
  then show ?case by (auto simp: consumed_refl split: if_splits)
qed

lemma step_0: "min_len (Rep 0 mx r) \<le> min_len r + min_len (Rep (0 - 1) (dec_max mx) r)"
  by (cases mx) simp_all

lemma step_None:
  "min_len (Rep (Suc k) None r) \<le> min_len r + min_len (Rep (Suc k - 1) (dec_max None) r)"
  by simp

lemma step_Some:
  "min_len (Rep (Suc k) (Some (Suc b)) r)
     \<le> min_len r + min_len (Rep (Suc k - 1) (dec_max (Some (Suc b))) r)"
  by simp

lemma min_len_Rep_step:
  assumes "mx \<noteq> Some 0"
  shows "min_len (Rep mn mx r) \<le> min_len r + min_len (Rep (mn - 1) (dec_max mx) r)"
proof (cases mn)
  case 0
  show ?thesis unfolding 0 by (rule step_0)
next
  case (Suc k)
  show ?thesis
  proof (cases mx)
    case None
    show ?thesis unfolding Suc None by (rule step_None)
  next
    case (Some b)
    with assms obtain b' where b: "b = Suc b'" by (cases b) auto
    show ?thesis unfolding Suc Some b by (rule step_Some)
  qed
qed


lemma re_run_min_len:
  "st' \<in> set (re_run ci r st) \<Longrightarrow> length (fst (snd st')) + min_len r \<le> length (fst (snd st))"
proof (induction ci r st arbitrary: st' rule: re_run.induct)
  case (2 ci p i s caps)
  then have "length p \<le> length s" "st' = (i + length p, drop (length p) s, caps)"
    by (auto split: if_splits dest: lit_prefix_take)
  then show ?case by simp
next
  case (6 ci a b st)
  from "6.prems" obtain st1 where
    m1: "st1 \<in> set (re_run ci a st)" and m2: "st' \<in> set (re_run ci b st1)"
    by auto
  from "6.IH"(1) [OF m1] "6.IH"(2) [OF m1 m2] show ?case by simp
next
  case (7 ci a b st)
  from "7.prems" have "st' \<in> set (re_run ci a st) \<or> st' \<in> set (re_run ci b st)" by simp
  then show ?case
  proof
    assume "st' \<in> set (re_run ci a st)"
    from "7.IH"(1) [OF this] show ?thesis by simp
  next
    assume "st' \<in> set (re_run ci b st)"
    from "7.IH"(2) [OF this] show ?thesis by simp
  qed
next
  case (8 ci mn mx r i s caps)
  show ?case
  proof (cases "mx = Some 0")
    case True
    with "8.prems" show ?thesis by (simp add: re_run.simps(8))
  next
    case False
    from re_run_Rep_cases [OF "8.prems" False] consider
      (more) j1 s1 c1 where "(j1, s1, c1) \<in> set (re_run ci r (i, s, caps))"
        "\<not> (mn = 0 \<and> \<not> length s1 < length s)"
        "st' \<in> set (re_run ci (Rep (mn - 1) (dec_max mx) r) (j1, s1, c1))"
      | (stop) "mn = 0" "st' = (i, s, caps)"
      by blast
    then show ?thesis
    proof cases
      case more
      from "8.IH"(1) [OF False more(1)] have a: "length s1 + min_len r \<le> length s" by simp
      from "8.IH"(2) [OF False more(1) refl refl more(2) more(3)]
      have b: "length (fst (snd st')) + min_len (Rep (mn - 1) (dec_max mx) r) \<le> length s1"
        by simp
      have c: "min_len (Rep mn mx r) \<le> min_len r + min_len (Rep (mn - 1) (dec_max mx) r)"
        by (rule min_len_Rep_step [OF False])
      have "length (fst (snd st')) + min_len (Rep mn mx r) \<le> length s"
        using a b c by linarith
      then show ?thesis by (simp only: fst_conv snd_conv)
    next
      case stop
      then show ?thesis by (cases mx) simp_all
    qed
  qed
next
  case (9 ci n r i s caps)
  from "9.prems" obtain j s1 c1 where "(j, s1, c1) \<in> set (re_run ci r (i, s, caps))"
    "st' = (j, s1, (n, take (j - i) s) # c1)" by auto
  with "9.IH" [of "(j, s1, c1)"] show ?case by simp
qed (auto split: list.splits if_splits)

lemma re_search_shorter:
  "re_search ci r i s = Some (j, s', caps) \<Longrightarrow> 0 < min_len r \<Longrightarrow> length s' < length s"
proof (induction ci r i s rule: re_search.induct)
  case (1 ci r i)
  then obtain ys where "re_run ci r (i, [], []) = (j, s', caps) # ys"
    by (auto split: list.splits)
  then have "(j, s', caps) \<in> set (re_run ci r (i, [], []))" by simp
  from re_run_min_len [OF this] "1.prems"(2) show ?case by simp
next
  case (2 ci r i c s)
  show ?case
  proof (cases "re_run ci r (i, c # s, [])")
    case Nil
    with "2.prems" have "re_search ci r (Suc i) s = Some (j, s', caps)" by simp
    from "2.IH" [OF Nil this "2.prems"(2)] show ?thesis by simp
  next
    case (Cons st ys)
    with "2.prems" have "st = (j, s', caps)" by simp
    with Cons have "(j, s', caps) \<in> set (re_run ci r (i, c # s, []))" by simp
    from re_run_min_len [OF this] "2.prems"(2) show ?thesis by simp
  qed
qed

lemma exec_all_total: "0 < min_len r \<Longrightarrow> \<exists>ms. exec_all ci r i s = Some ms"
proof (induction ci r i s rule: exec_all.induct)
  case (1 ci r i s)
  show ?case
  proof (cases "re_search ci r i s")
    case None
    then show ?thesis by (subst exec_all.simps) simp
  next
    case (Some st)
    obtain j s' caps where st: "st = (j, s', caps)" by (cases st)
    from re_search_shorter [OF Some [unfolded st] "1.prems"] have less: "length s' < length s" .
    from "1.IH" [OF Some [unfolded st] refl refl less "1.prems"]
    obtain ms where "exec_all ci r j s' = Some ms" by blast
    with Some st less show ?thesis by (subst exec_all.simps) simp
  qed
qed

lemma scan_commands_total:
  "list_all (\<lambda>r. 0 < min_len r) ps \<Longrightarrow> \<exists>cmds. scan_commands ps code acc = Some cmds"
proof (induction ps arbitrary: acc)
  case Nil
  then show ?case by simp
next
  case (Cons p ps)
  then have "0 < min_len p" by simp
  from exec_all_total [OF this] obtain ms where "exec_all False p 0 code = Some ms" by blast
  with Cons show ?case by simp
qed

lemma scan_flags_total:
  "list_all (\<lambda>r. 0 < min_len r) ps \<Longrightarrow> \<exists>fls. scan_flags ps code acc = Some fls"
proof (induction ps arbitrary: acc)
  case Nil
  then show ?case by simp
next
  case (Cons p ps)
  then have "0 < min_len p" by simp
  from exec_all_total [OF this] obtain ms where "exec_all False p 0 code = Some ms" by blast
  with Cons show ?case by simp
qed

lemma commandPatterns_progress: "list_all (\<lambda>r. 0 < min_len r) commandPatterns"
  by code_simp

lemma flagPatterns_progress: "list_all (\<lambda>r. 0 < min_len r) flagPatterns"
  by code_simp

lemma scan_code_total: "\<exists>st'. scan_code code st = Some st'"
proof -
  from scan_commands_total [OF commandPatterns_progress]
  obtain cmds where c: "scan_commands commandPatterns code (staticCommands st) = Some cmds" by blast
  from scan_flags_total [OF flagPatterns_progress]
  obtain fls where f: "scan_flags flagPatterns code (staticFlags st) = Some fls" by blast
  from c f show ?thesis by (simp add: scan_code_def)
qed

lemma scan_files_total: "\<exists>st'. scan_files fs paths st = Some st'"
proof (induction paths arbitrary: st)
  case Nil
  then show ?case by simp
next
  case (Cons p paths)
  show ?case
  proof (cases "readFileSync fs p")
    case None
    with Cons show ?thesis by simp
  next
    case (Some code)
    from scan_code_total obtain st1 where "scan_code code st = Some st1" by blast
    with Some Cons show ?thesis by simp
  qed
qed

section \<open>Static scanner: the stoplist and the flag names\<close>

text \<open>
  C6: scanning a source text that holds \<open>case 'help':\<close>, \<open>case 'version':\<close> and
  \<open>case 'deploy':\<close> gives exactly the one command \<open>deploy\<close>; the stoplist of generic words
  drops the other two, whatever their letter case.
\<close>

theorem stoplist_exclusion:
  "map_option staticCommands
     (scan_code ''switch (cmd) {
  case 'help': usage(); break;
  case 'version': show(); break;
  case 'deploy': deploy(); break;
}'' empty_scan) = Some [''deploy'']
   \<and> map_option staticCommands
     (scan_code ''case 'Help': case \"VERSION\": case `deploy`:'' empty_scan) = Some [''deploy'']"
  by code_simp

text \<open>
  C7: scanning a text with the property access \<open>opts.force\<close> gives the flag \<open>--force\<close>, and
  a text with \<open>opts.f\<close> gives \<open>-f\<close>: a name of one letter gets one dash, a longer one two.
\<close>

theorem flag_normalization:
  "map_option staticFlags (scan_code ''if (opts.force) { overwrite(); }'' empty_scan) = Some [''--force'']
   \<and> map_option staticFlags (scan_code ''if (opts.f) { overwrite(); }'' empty_scan) = Some [''-f'']
   \<and> normalize_flag ''force'' = ''--force'' \<and> normalize_flag ''f'' = ''-f''"
  by code_simp


section \<open>Merge engine: precedence, idempotence, order\<close>

lemma set_insert_by: "set (insert_by cmp x xs) = insert x (set xs)"
  by (induction xs) auto

lemma set_array_sort: "set (array_sort cmp xs) = set xs"
  unfolding array_sort_def by (induction xs) (auto simp: set_insert_by)

lemma distinct_map_insert_by:
  "distinct (map f (insert_by cmp x xs)) = (f x \<notin> f ` set xs \<and> distinct (map f xs))"
  by (induction xs) (auto simp: set_insert_by)

lemma distinct_map_array_sort: "distinct (map f (array_sort cmp xs)) = distinct (map f xs)"
  unfolding array_sort_def
  by (induction xs) (auto simp: distinct_map_insert_by set_array_sort [unfolded array_sort_def])

lemma sorted_insert_by:
  assumes total: "\<And>a b. cmp a b \<le> 0 \<or> cmp b a \<le> 0"
    and trans: "\<And>a b c. cmp a b \<le> 0 \<Longrightarrow> cmp b c \<le> 0 \<Longrightarrow> cmp a c \<le> 0"
  shows "sorted_wrt (\<lambda>a b. cmp a b \<le> 0) xs \<Longrightarrow> sorted_wrt (\<lambda>a b. cmp a b \<le> 0) (insert_by cmp x xs)"
proof (induction xs)
  case Nil
  then show ?case by simp
next
  case (Cons y ys)
  show ?case
  proof (cases "cmp x y \<le> 0")
    case True
    with Cons.prems trans show ?thesis by auto
  next
    case False
    with total have "cmp y x \<le> 0" by blast
    with False Cons show ?thesis by (auto simp: set_insert_by)
  qed
qed

lemma sorted_array_sort:
  assumes total: "\<And>a b. cmp a b \<le> 0 \<or> cmp b a \<le> 0"
    and trans: "\<And>a b c. cmp a b \<le> 0 \<Longrightarrow> cmp b c \<le> 0 \<Longrightarrow> cmp a c \<le> 0"
  shows "sorted_wrt (\<lambda>a b. cmp a b \<le> 0) (array_sort cmp xs)"
  unfolding array_sort_def
  by (induction xs) (auto intro: sorted_insert_by [OF total trans])

lemma array_sort_sorted:
  "sorted_wrt (\<lambda>a b. cmp a b \<le> 0) xs \<Longrightarrow> array_sort cmp xs = xs"
proof (induction xs)
  case Nil
  then show ?case by (simp add: array_sort_def)
next
  case (Cons x xs)
  then have "array_sort cmp xs = xs" by simp
  then have "array_sort cmp (x # xs) = insert_by cmp x xs" by (simp add: array_sort_def)
  also have "\<dots> = x # xs" using Cons.prems by (cases xs) auto
  finally show ?case .
qed

lemma sorted_wrt_distinct_strict:
  "sorted_wrt P xs \<Longrightarrow> distinct (map f xs) \<Longrightarrow> sorted_wrt (\<lambda>a b. P a b \<and> f a \<noteq> f b) xs"
  by (induction xs) auto

lemma filter_unique:
  "distinct (map f ys) \<Longrightarrow> y \<in> set ys \<Longrightarrow> filter (\<lambda>x. f x = f y) ys = [y]"
proof (induction ys)
  case Nil
  then show ?case by simp
next
  case (Cons a ys)
  show ?case
  proof (cases "a = y")
    case True
    with Cons.prems have "f y \<notin> f ` set ys" by simp
    then have "filter (\<lambda>x. f x = f y) ys = []"
      by (induction ys) auto
    with True show ?thesis by simp
  next
    case False
    with Cons show ?thesis by auto
  qed
qed

lemma map_set_eq: "map_set k v = AList.update k v"
  by (rule ext) (simp add: map_set_def)

lemma distinct_fold_update:
  "distinct (map fst m) \<Longrightarrow> distinct (map fst (fold (\<lambda>e. map_set (f e) (g e)) xs m))"
  by (induction xs arbitrary: m) (auto simp: map_set_eq distinct_update)

lemma distinct_merge_map: "distinct (map fst (merge_map statics dynamics))"
  unfolding merge_map_def by (intro distinct_fold_update) simp

lemma map_of_fold_update_last:
  "f e = n \<Longrightarrow> n \<notin> f ` set ds2 \<Longrightarrow>
   map_of (fold (\<lambda>e. map_set (f e) (g e)) (ds1 @ [e] @ ds2) m) n = Some (g e)"
proof (induction ds2 arbitrary: m ds1 rule: rev_induct)
  case Nil
  then show ?case by (simp add: map_set_eq update_conv')
next
  case (snoc d ds2)
  then have "map_of (fold (\<lambda>e. map_set (f e) (g e)) (ds1 @ [e] @ ds2) m) n = Some (g e)" by simp
  moreover have "f d \<noteq> n" using snoc.prems by auto
  ultimately show ?case by (simp add: map_set_eq update_conv')
qed

lemma update_fresh: "k \<notin> fst ` set m \<Longrightarrow> AList.update k v m = m @ [(k, v)]"
  by (induction m) auto

lemma fold_update_fresh:
  "distinct (map fst m @ map name xs) \<Longrightarrow>
   fold (\<lambda>e. map_set (name e) (desc e)) xs m = m @ map (\<lambda>e. (name e, desc e)) xs"
proof (induction xs arbitrary: m)
  case Nil
  then show ?case by simp
next
  case (Cons x xs)
  from Cons.prems have fresh: "name x \<notin> fst ` set m" by auto
  from Cons.prems have "distinct (map fst (m @ [(name x, desc x)]) @ map name xs)" by auto
  from Cons.IH [OF this] fresh show ?case by (simp add: map_set_eq update_fresh)
qed

lemma merge_map_of_merged:
  fixes out :: "entry list"
  assumes "distinct (map name out)"
  shows "map (\<lambda>(n, d). \<lparr>name = n, desc = d\<rparr>) (merge_map [] out) = out"
proof -
  have "merge_map [] out = map (\<lambda>e. (name e, desc e)) out"
    using fold_update_fresh [of "[]" out] assms by (simp add: merge_map_def)
  then show ?thesis by (simp add: comp_def map_idI)
qed

lemma cmp_name_total: "consistent_compare cmp \<Longrightarrow> cmp (name a) (name b) \<le> 0 \<or> cmp (name b) (name a) \<le> 0"
  unfolding consistent_compare_def by blast

lemma cmp_name_trans:
  "consistent_compare cmp \<Longrightarrow> cmp (name a) (name b) \<le> 0 \<Longrightarrow> cmp (name b) (name c) \<le> 0 \<Longrightarrow> cmp (name a) (name c) \<le> 0"
  unfolding consistent_compare_def by blast

lemma sorted_merge:
  assumes "consistent_compare cmp"
  shows "sorted_wrt (\<lambda>a b. cmp (name a) (name b) \<le> 0) (merge cmp statics dynamics)"
  unfolding merge_def
  by (rule sorted_array_sort [where cmp = "\<lambda>a b. cmp (name a) (name b)"])
     (rule cmp_name_total [OF assms], rule cmp_name_trans [OF assms])

lemma name_mk: "map name (map (\<lambda>(n, d). \<lparr>name = n, desc = d\<rparr>) m) = map fst m"
  by (induction m) auto

lemma distinct_merge: "distinct (map name (merge cmp statics dynamics))"
  unfolding merge_def distinct_map_array_sort name_mk by (rule distinct_merge_map)


lemma collation_char_inj:
  assumes "collation_primary c = collation_primary d" "collation_case c = collation_case d"
  shows "c = d"
proof -
  have "(of_char c :: nat) = of_char d"
    using assms unfolding collation_primary_def collation_case_def Let_def
    by (simp split: if_splits) (metis of_char_eq_iff)+
  then show ?thesis by simp
qed

lemma collation_key_inj: "collation_key a = collation_key b \<Longrightarrow> a = b"
proof (induction a arbitrary: b)
  case Nil
  then show ?case by (simp add: collation_key_def)
next
  case (Cons c a)
  then obtain d b' where b: "b = d # b'" by (cases b) (auto simp: collation_key_def)
  with Cons.prems have "collation_primary c = collation_primary d"
    "collation_case c = collation_case d" "collation_key a = collation_key b'"
    by (auto simp: collation_key_def)
  with Cons.IH collation_char_inj b show ?case by blast
qed

lemma localeCompare_root_le: "localeCompare_root a b \<le> 0 \<longleftrightarrow> collation_key a \<le> collation_key b"
  unfolding localeCompare_root_def by auto

lemma localeCompare_root_consistent: "consistent_compare localeCompare_root"
  unfolding consistent_compare_def localeCompare_root_le by auto

lemma localeCompare_root_separating: "separating_compare localeCompare_root"
  unfolding separating_compare_def localeCompare_root_def
  by (auto split: if_splits dest: collation_key_inj)

text \<open>
  C3: a name that the dynamic data holds gets the dynamic description in the merged
  sequence, also when the static set holds the name and also when that description is empty.
  The merged sequence has one record of that name; when the help text lists a name twice,
  the description of its last record stands.
\<close>

theorem dynamic_precedence:
  assumes "dynamics = ds1 @ [e] @ ds2" and "name e \<notin> name ` set ds2"
  shows "filter (\<lambda>x. name x = name e) (merge cmp statics dynamics) = [\<lparr>name = name e, desc = desc e\<rparr>]"
proof -
  have "map_of (merge_map statics dynamics) (name e) = Some (desc e)"
    unfolding merge_map_def assms(1)
    by (rule map_of_fold_update_last) (use assms(2) in auto)
  then have "(name e, desc e) \<in> set (merge_map statics dynamics)"
    by (rule map_of_SomeD)
  then have "\<lparr>name = name e, desc = desc e\<rparr> \<in> set (merge cmp statics dynamics)"
    unfolding merge_def by (force simp: set_array_sort)
  from filter_unique [OF distinct_merge this] show ?thesis by simp
qed

theorem dynamic_precedence_witness:
  "[\<lparr>name = ''build'', desc = ''Build it''\<rparr>, \<lparr>name = ''run'', desc = []\<rparr>]
     = [] @ [\<lparr>name = ''build'', desc = ''Build it''\<rparr>] @ [\<lparr>name = ''run'', desc = []\<rparr>]
   \<and> ''build'' \<notin> name ` set [\<lparr>name = ''run'', desc = []\<rparr>]
   \<and> filter (\<lambda>x. name x = ''build'')
        (merge localeCompare_root [''build'', ''run'', ''deploy'']
           [\<lparr>name = ''build'', desc = ''Build it''\<rparr>, \<lparr>name = ''run'', desc = []\<rparr>])
       = [\<lparr>name = ''build'', desc = ''Build it''\<rparr>]"
proof -
  have h1: "[\<lparr>name = ''build'', desc = ''Build it''\<rparr>, \<lparr>name = ''run'', desc = []\<rparr>]
     = [] @ [\<lparr>name = ''build'', desc = ''Build it''\<rparr>] @ [\<lparr>name = ''run'', desc = []\<rparr>]"
    by simp
  have h2: "name \<lparr>name = ''build'', desc = ''Build it''\<rparr> \<notin> name ` set [\<lparr>name = ''run'', desc = []\<rparr>]"
    by simp
  have h3: "filter (\<lambda>x. name x = ''build'')
        (merge localeCompare_root [''build'', ''run'', ''deploy'']
           [\<lparr>name = ''build'', desc = ''Build it''\<rparr>, \<lparr>name = ''run'', desc = []\<rparr>])
       = [\<lparr>name = ''build'', desc = ''Build it''\<rparr>]"
    using dynamic_precedence [OF h1 h2, of localeCompare_root "[''build'', ''run'', ''deploy'']"]
    by (simp only: entry.simps)
  have h4: "''build'' \<notin> name ` set [\<lparr>name = ''run'', desc = []\<rparr>]"
    by simp
  show ?thesis by (intro conjI) (rule h1, rule h4, rule h3)
qed

text \<open>
  C4: merging the output of a merge again, as the dynamic data against an empty static set,
  gives the same sequence back, for every static set and all dynamic data, whenever the
  comparison of the host is a consistent comparator.
\<close>

theorem merge_idempotent:
  assumes "consistent_compare cmp"
  shows "merge cmp [] (merge cmp statics dynamics) = merge cmp statics dynamics"
proof -
  let ?out = "merge cmp statics dynamics"
  have "merge cmp [] ?out = array_sort (\<lambda>a b. cmp (name a) (name b)) ?out"
    unfolding merge_def [of cmp "[]"] by (simp add: merge_map_of_merged distinct_merge)
  also have "\<dots> = ?out"
    by (rule array_sort_sorted) (rule sorted_merge [OF assms])
  finally show ?thesis .
qed

theorem merge_idempotent_witness:
  "consistent_compare localeCompare_root
   \<and> merge localeCompare_root []
        (merge localeCompare_root [''run'', ''Build''] [\<lparr>name = ''deploy'', desc = ''Ship it''\<rparr>])
       = merge localeCompare_root [''run'', ''Build''] [\<lparr>name = ''deploy'', desc = ''Ship it''\<rparr>]"
  by (intro conjI) (rule localeCompare_root_consistent,
    rule merge_idempotent [OF localeCompare_root_consistent])

text \<open>
  C5, as the code has it: the merged sequence has no name twice and is strictly ascending
  under the comparison it was sorted with, the host's \<open>localeCompare\<close>, whenever that is a
  consistent comparator that tells different names apart.
\<close>

theorem merged_strictly_ascending:
  assumes "consistent_compare cmp" and "separating_compare cmp"
  shows "sorted_wrt (\<lambda>a b. cmp (name a) (name b) < 0) (merge cmp statics dynamics)
         \<and> distinct (map name (merge cmp statics dynamics))"
proof -
  let ?out = "merge cmp statics dynamics"
  have "sorted_wrt (\<lambda>a b. cmp (name a) (name b) \<le> 0 \<and> name a \<noteq> name b) ?out"
    by (rule sorted_wrt_distinct_strict [OF sorted_merge [OF assms(1)] distinct_merge])
  moreover have "cmp (name a) (name b) < 0" if "cmp (name a) (name b) \<le> 0 \<and> name a \<noteq> name b" for a b :: entry
    using that assms(2) unfolding separating_compare_def by (metis order_le_less)
  ultimately have "sorted_wrt (\<lambda>a b. cmp (name a) (name b) < 0) ?out"
    by (rule sorted_wrt_mono_rel [rotated]) blast
  then show ?thesis using distinct_merge by blast
qed

theorem merged_strictly_ascending_witness:
  "consistent_compare localeCompare_root \<and> separating_compare localeCompare_root
   \<and> sorted_wrt (\<lambda>a b. localeCompare_root (name a) (name b) < 0)
        (merge localeCompare_root [''run'', ''Build''] [\<lparr>name = ''deploy'', desc = ''Ship it''\<rparr>])
   \<and> distinct (map name
        (merge localeCompare_root [''run'', ''Build''] [\<lparr>name = ''deploy'', desc = ''Ship it''\<rparr>]))
   \<and> merge localeCompare_root [''run'', ''Build''] [\<lparr>name = ''deploy'', desc = ''Ship it''\<rparr>]
       = [\<lparr>name = ''Build'', desc = []\<rparr>, \<lparr>name = ''deploy'', desc = ''Ship it''\<rparr>,
          \<lparr>name = ''run'', desc = []\<rparr>]"
proof -
  have v: "merge localeCompare_root [''run'', ''Build''] [\<lparr>name = ''deploy'', desc = ''Ship it''\<rparr>]
       = [\<lparr>name = ''Build'', desc = []\<rparr>, \<lparr>name = ''deploy'', desc = ''Ship it''\<rparr>,
          \<lparr>name = ''run'', desc = []\<rparr>]"
    by code_simp
  show ?thesis
    by (intro conjI)
      (rule localeCompare_root_consistent, rule localeCompare_root_separating,
       rule conjunct1 [OF merged_strictly_ascending
         [OF localeCompare_root_consistent localeCompare_root_separating]],
       rule conjunct2 [OF merged_strictly_ascending
         [OF localeCompare_root_consistent localeCompare_root_separating]],
       rule v)
qed

text \<open>
  C5, as the claim states it, fails: the order is the one of \<open>localeCompare\<close>, not the order
  of the character codes. The commands \<open>a\<close> and \<open>B\<close> are merged in this order, while
  \<open>B\<close> is before \<open>a\<close> in the order of the codes.
\<close>

theorem merged_not_ordinal_counterexample:
  "merge localeCompare_root [''a'', ''B''] []
     = [\<lparr>name = ''a'', desc = []\<rparr>, \<lparr>name = ''B'', desc = []\<rparr>]
   \<and> \<not> sorted_wrt (\<lambda>x y. name x < name y) (merge localeCompare_root [''a'', ''B''] [])"
  by code_simp


section \<open>Static scanner: the rejection list of the flags\<close>

lemma never_flags_rejected: "set never_flags \<subseteq> set flag_rejects"
  by (simp add: never_flags_def flag_rejects_def)

lemma add_flag_rejects:
  "set acc \<inter> set flag_rejects = {} \<Longrightarrow> set (add_flag caps acc) \<inter> set flag_rejects = {}"
  unfolding add_flag_def set_add_def Let_def by (auto split: if_splits)

lemma fold_add_flag_rejects:
  "set acc \<inter> set flag_rejects = {} \<Longrightarrow> set (fold add_flag ms acc) \<inter> set flag_rejects = {}"
  by (induction ms arbitrary: acc) (simp_all add: add_flag_rejects)

lemma scan_flags_rejects:
  "scan_flags ps code acc = Some fls \<Longrightarrow> set acc \<inter> set flag_rejects = {}
   \<Longrightarrow> set fls \<inter> set flag_rejects = {}"
proof (induction ps arbitrary: acc)
  case Nil
  then show ?case by simp
next
  case (Cons p ps)
  from Cons.prems(1) obtain ms where ms: "exec_all False p 0 code = Some ms"
    and rest: "scan_flags ps code (fold add_flag ms acc) = Some fls"
    by (auto split: option.splits)
  from Cons.IH [OF rest fold_add_flag_rejects [OF Cons.prems(2)]] show ?case .
qed

lemma scan_code_rejects:
  "scan_code code st = Some st' \<Longrightarrow> set (staticFlags st) \<inter> set flag_rejects = {}
   \<Longrightarrow> set (staticFlags st') \<inter> set flag_rejects = {}"
  unfolding scan_code_def
  by (auto split: option.splits dest!: scan_flags_rejects)

lemma scan_files_rejects:
  "scan_files fs paths st = Some st' \<Longrightarrow> set (staticFlags st) \<inter> set flag_rejects = {}
   \<Longrightarrow> set (staticFlags st') \<inter> set flag_rejects = {}"
proof (induction paths arbitrary: st)
  case Nil
  then show ?case by simp
next
  case (Cons p paths)
  show ?case
  proof (cases "existsSync fs p")
    case False
    with Cons show ?thesis by simp
  next
    case True
    show ?thesis
    proof (cases "readFileSync fs p")
      case None
      with True Cons show ?thesis by simp
    next
      case (Some code)
      with True Cons.prems(1) obtain st1 where s1: "scan_code code st = Some st1"
        and rest: "scan_files fs paths st1 = Some st'"
        by (auto split: option.splits)
      from Cons.IH [OF rest scan_code_rejects [OF s1 Cons.prems(2)]] show ?thesis .
    qed
  qed
qed

text \<open>
  C10: for every file system and every list of entry files, the scan ends and the set of
  static flags holds none of \<open>--help\<close>, \<open>-h\<close>, \<open>-\<close>, \<open>--\<close>, \<open>---\<close> and \<open>-1\<close>, also
  when the text has them as operands of comparisons, \<open>includes\<close> calls and \<open>case\<close> labels:
  they are on the rejection list that the scanner consults before it adds a flag.
\<close>

theorem static_flags_never_rejected:
  "(\<exists>st. scan_files fs paths empty_scan = Some st
         \<and> set (staticFlags st) \<inter> set never_flags = {})
   \<and> map_option staticFlags
        (scan_code ''if (args.includes('--help') || a === '-h' || a == '--') {}
switch (a) { case '-': case '---': case '-1': break; case '--verbose': v(); }''
           empty_scan) = Some [''--verbose'']"
proof
  from scan_files_total obtain st where st: "scan_files fs paths empty_scan = Some st" by blast
  have "set (staticFlags empty_scan) \<inter> set flag_rejects = {}" by (simp add: empty_scan_def)
  from scan_files_rejects [OF st this] never_flags_rejected
  have "set (staticFlags st) \<inter> set never_flags = {}" by blast
  with st show "\<exists>st. scan_files fs paths empty_scan = Some st
         \<and> set (staticFlags st) \<inter> set never_flags = {}" by blast
next
  show "map_option staticFlags
        (scan_code ''if (args.includes('--help') || a === '-h' || a == '--') {}
switch (a) { case '-': case '---': case '-1': break; case '--verbose': v(); }''
           empty_scan) = Some [''--verbose'']"
    by code_simp
qed


section \<open>Repository identifier: the example and the failures\<close>

lemma github_pattern_example:
  "re_match False github_pattern ''https://github.com/acme/widgets.git''
     = Some [(2, ''widgets''), (1, ''acme'')]"
  by code_simp

lemma match_repo_typed: "url_typed r \<Longrightarrow> truthy r \<Longrightarrow> \<exists>g. match_repo (repository_url r) = Inr g"
proof (cases r)
  case (JObj kvs)
  assume "url_typed r"
  with JObj show ?thesis
    by (cases "map_of kvs ''url''") (auto split: jsval.splits)
qed simp_all

lemma github_from_manifest_typed:
  "repository_typed pkg \<Longrightarrow> \<exists>g. github_from_manifest pkg = Inr g"
  unfolding repository_typed_def github_from_manifest_def
  by (auto split: option.splits dest: match_repo_typed)

lemma detect_github_cases:
  "github_from_manifest pkg = Inr g \<Longrightarrow>
   detect_github h fs absPath pkg = Inr (case g of Some x \<Rightarrow> Some x | None \<Rightarrow> github_from_git h fs absPath)"
  unfolding detect_github_def by (simp split: option.splits)

text \<open>
  C8, as the code has it: the repository field \<open>https://github.com/acme/widgets.git\<close>
  gives the user \<open>acme\<close> and the repository \<open>widgets\<close>, the suffix \<open>.git\<close> left out; for
  every manifest whose repository is of the types above the identification does not fail;
  and when the manifest gives no match and the configuration of git is missing, cannot be
  read or holds no match, the result is empty.
\<close>

theorem repository_identifier:
  "detect_github h fs absPath
     (pkg\<lparr>pkg_repository := Some (JStr ''https://github.com/acme/widgets.git'')\<rparr>)
     = Inr (Some (''acme'', ''widgets''))
   \<and> (repository_typed pkg \<longrightarrow> (\<exists>g. detect_github h fs absPath pkg = Inr g))
   \<and> (github_from_manifest pkg = Inr None
        \<and> (case readFileSync fs (path_join h [absPath, ''.git'', ''config'']) of
              None \<Rightarrow> True
            | Some gitConfig \<Rightarrow> re_match False gitconfig_pattern gitConfig = None)
        \<longrightarrow> detect_github h fs absPath pkg = Inr None)"
proof (intro conjI impI)
  have "github_from_manifest (pkg\<lparr>pkg_repository := Some (JStr ''https://github.com/acme/widgets.git'')\<rparr>)
          = Inr (Some (''acme'', ''widgets''))"
    by (simp add: github_from_manifest_def github_pattern_example grp_def)
  from detect_github_cases [OF this]
  show "detect_github h fs absPath
     (pkg\<lparr>pkg_repository := Some (JStr ''https://github.com/acme/widgets.git'')\<rparr>)
     = Inr (Some (''acme'', ''widgets''))" by simp
next
  assume "repository_typed pkg"
  from github_from_manifest_typed [OF this] obtain g where "github_from_manifest pkg = Inr g" by blast
  from detect_github_cases [OF this] show "\<exists>g. detect_github h fs absPath pkg = Inr g" by blast
next
  assume a: "github_from_manifest pkg = Inr None
        \<and> (case readFileSync fs (path_join h [absPath, ''.git'', ''config'']) of
              None \<Rightarrow> True
            | Some gitConfig \<Rightarrow> re_match False gitconfig_pattern gitConfig = None)"
  then have "github_from_git h fs absPath = None"
    by (simp add: github_from_git_def Let_def split: option.splits)
  with detect_github_cases [of pkg None h fs absPath] a
  show "detect_github h fs absPath pkg = Inr None" by simp
qed

text \<open>
  The theorem at a manifest whose repository is an object with a \<open>url\<close> on another host,
  in a project whose git configuration cannot be read.
\<close>

theorem repository_identifier_witness:
  "repository_typed typed_example
   \<and> github_from_manifest typed_example = Inr None
   \<and> readFileSync [(''/proj/.git/config'', Unreadable)]
        (path_join (example_host (\<lambda>t. None)) [''/proj'', ''.git'', ''config'']) = None
   \<and> (\<exists>g. detect_github (example_host (\<lambda>t. None)) [(''/proj/.git/config'', Unreadable)] ''/proj''
              typed_example = Inr g)
   \<and> detect_github (example_host (\<lambda>t. None)) [(''/proj/.git/config'', Unreadable)] ''/proj''
        typed_example = Inr None"
proof -
  have t: "repository_typed typed_example" by code_simp
  have m: "github_from_manifest typed_example = Inr None" by code_simp
  have r: "readFileSync [(''/proj/.git/config'', Unreadable)]
        (path_join (example_host (\<lambda>t. None)) [''/proj'', ''.git'', ''config'']) = None"
    by code_simp
  note inst = repository_identifier [of "example_host (\<lambda>t. None)"
      "[(''/proj/.git/config'', Unreadable)]" "''/proj''" typed_example]
  from inst t have e: "\<exists>g. detect_github (example_host (\<lambda>t. None))
      [(''/proj/.git/config'', Unreadable)] ''/proj'' typed_example = Inr g" by blast
  from inst m r have n: "detect_github (example_host (\<lambda>t. None))
      [(''/proj/.git/config'', Unreadable)] ''/proj'' typed_example = Inr None" by simp
  show ?thesis by (intro conjI) (rule t, rule m, rule r, rule e, rule n)
qed

text \<open>
  C8, as the claim states it, fails: it is not every input that is identified without a
  failure. A repository object whose \<open>url\<close> is a number has no method \<open>match\<close>; the call
  \<open>repo?.match(...)\<close> throws a \<open>TypeError\<close>, outside of any \<open>try\<close>.
\<close>

theorem repository_url_not_string_counterexample:
  "detect_github (example_host (\<lambda>t. None)) [] ''/proj''
     (no_fields\<lparr>pkg_repository := Some (JObj [(''url'', JNum 1)])\<rparr>) = Inl TypeError"
  by code_simp


section \<open>The script: the overwrite guard and the default run\<close>

text \<open>
  The guard of line 61 asks for \<open>flags.human\<close> or \<open>flags.H\<close>, two properties the object
  \<open>flags\<close> never has: its condition is false for every command line. The condition of
  line 273 asks for the absence of both: every run that gets there prints the analysis as
  JSON and exits, and no run writes a file.
\<close>

lemma readme_guard_never: "\<not> readme_guard flags readme_exists"
  by (simp add: readme_guard_def flags_human_def flags_H_def)

lemma finish_json: "finish flags fs readmePath a = Exit 0 [StdoutJson a] fs"
  by (simp add: finish_def flags_human_def flags_H_def)

lemma analyse_keeps_files:
  "analyse h fs flags absPath readmePath pkg = Exit n out fs' \<Longrightarrow> fs' = fs \<and> n = 0"
  unfolding analyse_def Let_def finish_json
  by (auto split: sum.splits option.splits)

lemma run_keeps_files: "run h fs args = Exit n out fs' \<Longrightarrow> fs' = fs"
  unfolding run_def Let_def
  by (auto split: if_splits option.splits dest: analyse_keeps_files)

text \<open>
  C1 at a project that holds a \<open>README.md\<close>, run with no option: the run ends with exit
  code 0 after printing the analysis as JSON, and leaves the files as they were. The guard
  does not fire; the guard of the older variant of the script does.
\<close>

theorem overwrite_guard_never_fires:
  "run (example_host guarded_parse) guarded_project []
     = Exit 0 [StdoutJson \<lparr>a_name = ''tool'', a_description = ''A CLI tool'', a_version = ''1.0.0'',
                a_license = ''MIT'', a_author = [], a_scripts = [], a_bin = [], a_keywords = [],
                a_main = ''index.js'', a_commands = [], a_flags = [], a_usage = [],
                a_github = None\<rparr>] guarded_project
   \<and> existsSync guarded_project ''/proj/README.md''
   \<and> \<not> readme_guard (parse_flags []) True
   \<and> readme_guard_legacy (parse_flags []) True"
  by code_simp

text \<open>
  C2 at the project of the scenario, run with no option: the run prints the analysis as
  JSON and exits with code 0; no \<open>README.md\<close> is written.
\<close>

theorem default_run_prints_json:
  "run (example_host tool_parse) tool_project [] = Exit 0 [StdoutJson tool_analysis] tool_project
   \<and> \<not> existsSync tool_project ''/proj/README.md''"
  by code_simp

text \<open>
  The renderer, which the run above does not reach, gives for the analysis of that project
  the text that the scenario expects: the title \<open># tool\<close>, the installation line
  \<open>npm install -g tool\<close> and a row for \<open>build\<close> in the table of commands.
\<close>

lemma render_tool_analysis:
  "render (parse_flags []) tool_analysis =
   ''# tool

A CLI tool

## Installation

```bash
npm install -g tool
# or
npx tool
```

## Usage

```bash
tool --help
```

### Commands

| Command | Description |
|---------|-------------|
| `build` |  |

## Examples

```bash
# build
tool build
```

## License

MIT
''"
  by code_simp


section \<open>Help-text parser: headers and flag lines\<close>

lemma split_on_nonempty: "split_on sep s \<noteq> []"
  by (induction s) (auto split: list.splits)

lemma find_as_filter: "find P xs = (case filter P xs of [] \<Rightarrow> None | x # _ \<Rightarrow> Some x)"
  by (induction xs) auto

text \<open>
  The name the code picks is the canonical name of the specification.
\<close>

lemma primary_name_canonical: "names \<noteq> [] \<Longrightarrow> primary_name names = canonical_flag_name names"
  unfolding primary_name_def canonical_flag_name_def find_as_filter
  by (cases names) (auto split: list.splits)

lemma re_run_SeqD:
  "st' \<in> set (re_run ci (Seq a b) st) \<Longrightarrow>
   \<exists>st1. st1 \<in> set (re_run ci a st) \<and> st' \<in> set (re_run ci b st1)"
  by auto

lemma re_run_GrpD:
  "st' \<in> set (re_run ci (Grp n r) (i, s, c)) \<Longrightarrow>
   \<exists>j s' c'. st' = (j, s', (n, take (j - i) s) # c') \<and> (j, s', c') \<in> set (re_run ci r (i, s, c))"
  by auto

lemma re_run_BolD: "st' \<in> set (re_run ci Bol (i, s, c)) \<Longrightarrow> i = 0 \<and> st' = (i, s, c)"
  by (auto split: if_splits)

lemma re_run_EolD: "st' \<in> set (re_run ci Eol (i, s, c)) \<Longrightarrow> s = [] \<and> st' = (i, s, c)"
  by (auto split: if_splits)

lemma re_run_LitD: "st' \<in> set (re_run ci (Lit p) (i, s, c)) \<Longrightarrow> lit_prefix ci p s"
  by (auto split: if_splits)

lemma re_search_member:
  "re_search ci r i s = Some st \<Longrightarrow> \<exists>k. k \<le> length s \<and> st \<in> set (re_run ci r (i + k, drop k s, []))"
proof (induction ci r i s rule: re_search.induct)
  case (1 ci r i)
  then have "st \<in> set (re_run ci r (i, [], []))" by (auto split: list.splits)
  then show ?case by (intro exI [of _ 0]) simp
next
  case (2 ci r i c s)
  show ?case
  proof (cases "re_run ci r (i, c # s, [])")
    case Nil
    with "2.prems" have "re_search ci r (Suc i) s = Some st" by simp
    from "2.IH" [OF Nil this] obtain k where "k \<le> length s"
      "st \<in> set (re_run ci r (Suc i + k, drop k s, []))" by blast
    then show ?thesis by (intro exI [of _ "Suc k"]) simp
  next
    case (Cons x xs)
    with "2.prems" have "st \<in> set (re_run ci r (i, c # s, []))" by simp
    then show ?thesis by (intro exI [of _ 0]) simp
  qed
qed

lemma re_search_BolD:
  assumes "re_search ci (Seq Bol r) 0 s = Some st"
  shows "st \<in> set (re_run ci r (0, s, []))"
proof -
  from re_search_member [OF assms] obtain k where
    "st \<in> set (re_run ci (Seq Bol r) (0 + k, drop k s, []))" by blast
  from re_run_SeqD [OF this] obtain st1 where
    b: "st1 \<in> set (re_run ci Bol (0 + k, drop k s, []))" and m: "st \<in> set (re_run ci r st1)" by blast
  from re_run_BolD [OF b] have "k = 0" "st1 = (0, s, [])" by auto
  with m show ?thesis by simp
qed

lemma rep_class_spaces:
  "r = Rep mn mx (CSet [SpaceC]) \<Longrightarrow> st' \<in> set (re_run False r st) \<Longrightarrow>
   \<exists>u. fst (snd st) = u @ fst (snd st') \<and> list_all is_space u"
proof (induction False r st arbitrary: mn mx st' rule: re_run.induct)
  case (8 mn' mx' r' i s caps)
  then have r': "r' = CSet [SpaceC]" and mn: "mn' = mn" and mx: "mx' = mx" by auto
  show ?case
  proof (cases "mx' = Some 0")
    case True
    with "8.prems"(2) show ?thesis by (simp add: re_run.simps(8))
  next
    case False
    from re_run_Rep_cases [OF "8.prems"(2) False] consider
      (more) j1 s1 c1 where "(j1, s1, c1) \<in> set (re_run False r' (i, s, caps))"
        "\<not> (mn' = 0 \<and> \<not> length s1 < length s)"
        "st' \<in> set (re_run False (Rep (mn' - 1) (dec_max mx') r') (j1, s1, c1))"
      | (stop) "mn' = 0" "st' = (i, s, caps)"
      by blast
    then show ?thesis
    proof cases
      case more
      from more(1) r' obtain c where c: "s = c # s1" "is_space c"
        by (auto simp: in_class_def split: list.splits if_splits)
      from "8.hyps"(2) [OF False more(1) refl refl more(2) _ more(3)] r'
      obtain u where "s1 = u @ fst (snd st')" "list_all is_space u" by auto
      with c show ?thesis by (intro exI [of _ "c # u"]) simp
    next
      case stop
      then show ?thesis by simp
    qed
  qed
qed simp_all

lemma flag_line_pattern_unfold:
  "flag_line_pattern =
     Seq Bol (Seq (Rep 2 None (CSet [SpaceC]))
       (Seq (Grp 1 (Seq (Seq (Lit ''-'') (Seq (rep1 (CSet [Rng (CHR ''a'') (CHR ''z''), Rng (CHR ''A'') (CHR ''Z''),
                                 Rng (CHR ''0'') (CHR ''9''), Chr (CHR ''-'')])) Eps))
                     (Seq (rep0 (seq [Lit '','', rep1 ws, flag_token])) Eps)))
         (Seq (rep1 ws) (Seq (Grp 2 (Rep 1 None Dot)) (Seq Eol Eps)))))"
  by (simp add: flag_line_pattern_def flag_token_def seq_def ws_def rep1_def)

lemma lit_dash: "lit_prefix False ''-'' s \<Longrightarrow> \<exists>rest. s = CHR ''-'' # rest"
  by (cases s) (auto simp: canon_def split: if_splits)

text \<open>
  What a match of the pattern of flag lines says about the line: it starts with white space
  and a dash, and the second group is the rest of the line, which is not empty.
\<close>

lemma flag_line_match:
  assumes "re_match False flag_line_pattern line = Some caps"
  shows "(\<exists>u rest. line = u @ CHR ''-'' # rest \<and> list_all is_space u)
         \<and> (\<exists>pre. line = pre @ grp caps 2) \<and> grp caps 2 \<noteq> []"
proof -
  from assms obtain j s' where
    "re_search False flag_line_pattern 0 line = Some (j, s', caps)"
    by (auto simp: re_match_def)
  from re_search_BolD [OF this [unfolded flag_line_pattern_unfold]]
  have "(j, s', caps) \<in> set (re_run False
      (Seq (Rep 2 None (CSet [SpaceC]))
       (Seq (Grp 1 (Seq (Seq (Lit ''-'') (Seq (rep1 (CSet [Rng (CHR ''a'') (CHR ''z''), Rng (CHR ''A'') (CHR ''Z''),
                                 Rng (CHR ''0'') (CHR ''9''), Chr (CHR ''-'')])) Eps))
                     (Seq (rep0 (seq [Lit '','', rep1 ws, flag_token])) Eps)))
         (Seq (rep1 ws) (Seq (Grp 2 (Rep 1 None Dot)) (Seq Eol Eps))))) (0, line, []))" .
  from re_run_SeqD [OF this] obtain st1 where
    m1: "st1 \<in> set (re_run False (Rep 2 None (CSet [SpaceC])) (0, line, []))" and
    r1: "(j, s', caps) \<in> set (re_run False
       (Seq (Grp 1 (Seq (Seq (Lit ''-'') (Seq (rep1 (CSet [Rng (CHR ''a'') (CHR ''z''), Rng (CHR ''A'') (CHR ''Z''),
                                 Rng (CHR ''0'') (CHR ''9''), Chr (CHR ''-'')])) Eps))
                     (Seq (rep0 (seq [Lit '','', rep1 ws, flag_token])) Eps)))
         (Seq (rep1 ws) (Seq (Grp 2 (Rep 1 None Dot)) (Seq Eol Eps)))) st1)" by blast
  obtain j1 s1 c1 where st1: "st1 = (j1, s1, c1)" by (cases st1)
  from rep_class_spaces [OF refl m1] st1 obtain u where u: "line = u @ s1" "list_all is_space u"
    by auto
  from re_run_SeqD [OF r1] obtain st2 where
    m2: "st2 \<in> set (re_run False (Grp 1 (Seq (Seq (Lit ''-'') (Seq (rep1 (CSet [Rng (CHR ''a'') (CHR ''z''), Rng (CHR ''A'') (CHR ''Z''),
                                 Rng (CHR ''0'') (CHR ''9''), Chr (CHR ''-'')])) Eps))
                     (Seq (rep0 (seq [Lit '','', rep1 ws, flag_token])) Eps))) st1)" and
    r2: "(j, s', caps) \<in> set (re_run False
         (Seq (rep1 ws) (Seq (Grp 2 (Rep 1 None Dot)) (Seq Eol Eps))) st2)" by blast
  from re_run_GrpD [OF m2 [unfolded st1]] obtain j2 s2 c2 where
    "(j2, s2, c2) \<in> set (re_run False (Seq (Seq (Lit ''-'') (Seq (rep1 (CSet [Rng (CHR ''a'') (CHR ''z''), Rng (CHR ''A'') (CHR ''Z''),
                                 Rng (CHR ''0'') (CHR ''9''), Chr (CHR ''-'')])) Eps))
                     (Seq (rep0 (seq [Lit '','', rep1 ws, flag_token])) Eps)) (j1, s1, c1))" by blast
  from re_run_SeqD [OF this] obtain sta where
    "sta \<in> set (re_run False (Seq (Lit ''-'') (Seq (rep1 (CSet [Rng (CHR ''a'') (CHR ''z''), Rng (CHR ''A'') (CHR ''Z''),
                                 Rng (CHR ''0'') (CHR ''9''), Chr (CHR ''-'')])) Eps)) (j1, s1, c1))" by blast
  from re_run_SeqD [OF this] obtain stb where
    "stb \<in> set (re_run False (Lit ''-'') (j1, s1, c1))" by blast
  from lit_dash [OF re_run_LitD [OF this]] obtain rest where rest: "s1 = CHR ''-'' # rest" by blast
  have first: "\<exists>u rest. line = u @ CHR ''-'' # rest \<and> list_all is_space u"
    using u rest by blast
  from re_run_SeqD [OF r2] obtain st3 where
    m3: "st3 \<in> set (re_run False (rep1 ws) st2)" and
    r3: "(j, s', caps) \<in> set (re_run False (Seq (Grp 2 (Rep 1 None Dot)) (Seq Eol Eps)) st3)"
    by blast
  obtain j3 s3 c3 where st3: "st3 = (j3, s3, c3)" by (cases st3)
  from re_run_SeqD [OF r3] obtain st4 where
    m4: "st4 \<in> set (re_run False (Grp 2 (Rep 1 None Dot)) st3)" and
    r4: "(j, s', caps) \<in> set (re_run False (Seq Eol Eps) st4)" by blast
  from re_run_GrpD [OF m4 [unfolded st3]] obtain j4 s4 c4 where
    st4: "st4 = (j4, s4, (2, take (j4 - j3) s3) # c4)" and
    m5: "(j4, s4, c4) \<in> set (re_run False (Rep 1 None Dot) (j3, s3, c3))" by blast
  from re_run_SeqD [OF r4] obtain st5 where
    m6: "st5 \<in> set (re_run False Eol st4)" and "(j, s', caps) \<in> set (re_run False Eps st5)"
    by blast
  then have fin: "(j, s', caps) = st5" by simp
  from re_run_EolD [OF m6 [unfolded st4]] have e: "s4 = []" "st5 = st4" by (auto simp: st4)
  from fin e st4 have caps: "caps = (2, take (j4 - j3) s3) # c4" by simp
  from re_run_consumed [OF m5] e(1) have "take (j4 - j3) s3 = s3"
    by (auto simp: consumed_def)
  with caps have desc: "grp caps 2 = s3" by (simp add: grp_def)
  from re_run_min_len [OF m5] have ne: "s3 \<noteq> []" by auto
  from re_run_consumed [OF m1] re_run_consumed [OF m2] re_run_consumed [OF m3]
  have "consumed (0, line, []) st3" by (blast intro: consumed_trans)
  then obtain pre where "line = pre @ s3" by (auto simp: consumed_def st3)
  with desc ne first show ?thesis by auto
qed

lemma dropWhile_snoc_keeps: "\<not> P c \<Longrightarrow> \<exists>ys. dropWhile P (xs @ [c]) = ys @ [c]"
  by (induction xs) auto

lemma trim_first:
  assumes "list_all is_space u" and "\<not> is_space c"
  shows "\<exists>t. trim (u @ c # rest) = c # t"
proof -
  from assms have "dropWhile is_space (u @ c # rest) = c # rest"
    by (induction u) auto
  moreover from dropWhile_snoc_keeps [of is_space c "rev rest", OF assms(2)] obtain ys where
    "dropWhile is_space (rev rest @ [c]) = ys @ [c]" by blast
  ultimately have "trim (u @ c # rest) = c # rev ys" by (simp add: trim_def)
  then show ?thesis by blast
qed

lemma header_pattern_unfold:
  "header_pattern =
     Seq Bol (Seq (Grp 1 (Alt (Lit ''Commands'') (Alt (Lit ''Usage'') (Alt (Lit ''Options'') (Lit ''Flags'')))))
                  (Seq (Lit '':'') Eps))"
  by (simp add: header_pattern_def seq_def alts_def)

lemma dash_is_no_letter:
  "canon True (CHR ''C'') \<noteq> canon True (CHR ''-'')" "canon True (CHR ''U'') \<noteq> canon True (CHR ''-'')"
  "canon True (CHR ''O'') \<noteq> canon True (CHR ''-'')" "canon True (CHR ''F'') \<noteq> canon True (CHR ''-'')"
  by code_simp+

lemma header_not_dash: "\<not> re_test True header_pattern (CHR ''-'' # t)"
proof
  assume "re_test True header_pattern (CHR ''-'' # t)"
  then obtain st where "re_search True header_pattern 0 (CHR ''-'' # t) = Some st"
    by (auto simp: re_test_def re_match_def)
  from re_search_BolD [OF this [unfolded header_pattern_unfold]] re_run_SeqD
  obtain st1 where "st1 \<in> set (re_run True
      (Grp 1 (Alt (Lit ''Commands'') (Alt (Lit ''Usage'') (Alt (Lit ''Options'') (Lit ''Flags'')))))
      (0, CHR ''-'' # t, []))" by blast
  from re_run_GrpD [OF this] obtain j s' c' where
    "(j, s', c') \<in> set (re_run True
      (Alt (Lit ''Commands'') (Alt (Lit ''Usage'') (Alt (Lit ''Options'') (Lit ''Flags''))))
      (0, CHR ''-'' # t, []))" by blast
  then show False by (simp add: dash_is_no_letter)
qed

lemma dash_no_space: "\<not> is_space (CHR ''-'')"
  by code_simp

lemma header_letters: "list_all header_letter ''CUOFomandsgeptil''"
  by code_simp

lemma colon_has_no_case: "\<forall>c. \<not> (toUpperChar (CHR '':'') = toUpperChar c \<and> c \<noteq> CHR '':'')"
  by code_simp

lemma lit_prefix_ci_word:
  "list_all header_letter w \<Longrightarrow> lit_prefix True w t \<Longrightarrow>
   \<exists>w' rest. t = w' @ rest \<and> toLowerCase w' = toLowerCase w \<and> CHR '':'' \<notin> set w'"
proof (induction w arbitrary: t)
  case Nil
  show ?case by (intro exI [of _ "[]"] exI [of _ t]) (simp add: toLowerCase_def)
next
  case (Cons l w)
  from Cons.prems(2) obtain c s where t: "t = c # s"
    and eq: "toUpperChar l = toUpperChar c" and more: "lit_prefix True w s"
    by (cases t) (auto simp: canon_def split: if_splits)
  from Cons.prems(1) have hl: "header_letter l" and all: "list_all header_letter w" by simp_all
  from hl have "\<not> (toUpperChar c = toUpperChar l
      \<and> \<not> (toLowerChar c = toLowerChar l \<and> c \<noteq> CHR '':''))"
    unfolding header_letter_def by (rule spec)
  with eq have c: "toLowerChar c = toLowerChar l" "c \<noteq> CHR '':''" by simp_all
  from Cons.IH [OF all more] obtain w' rest where
    "s = w' @ rest" "toLowerCase w' = toLowerCase w" "CHR '':'' \<notin> set w'" by blast
  with t c show ?case
    by (intro exI [of _ "c # w'"] exI [of _ rest]) (simp add: toLowerCase_def)
qed

lemma hd_split_on: "sep \<notin> set w \<Longrightarrow> hd (split_on sep (w @ sep # rest)) = w"
  by (induction w) (auto split: list.splits simp: split_on_nonempty)

lemma re_run_AltD:
  "st' \<in> set (re_run ci (Alt a b) st) \<Longrightarrow>
   st' \<in> set (re_run ci a st) \<or> st' \<in> set (re_run ci b st)"
  by simp

lemma re_run_Lit_member:
  "(j, s', c') \<in> set (re_run ci (Lit p) (i, s, c)) \<Longrightarrow> lit_prefix ci p s \<and> s' = drop (length p) s"
  by (auto split: if_splits)

lemma header_words:
  "list_all (list_all header_letter) [''Commands'', ''Usage'', ''Options'', ''Flags'']"
  "map toLowerCase [''Commands'', ''Usage'', ''Options'', ''Flags'']
     = [''commands'', ''usage'', ''options'', ''flags'']"
  by code_simp+

text \<open>
  A header line names one of the four sections: what stands before its first colon is, in
  small letters, \<open>commands\<close>, \<open>usage\<close>, \<open>options\<close> or \<open>flags\<close>.
\<close>

lemma header_section:
  assumes "re_test True header_pattern t"
  shows "toLowerCase (hd (split_on (CHR '':'') t)) \<in> set [''commands'', ''usage'', ''options'', ''flags'']"
proof -
  from assms obtain st where "re_search True header_pattern 0 t = Some st"
    by (auto simp: re_test_def re_match_def)
  from re_search_BolD [OF this [unfolded header_pattern_unfold]] re_run_SeqD
  obtain st1 where
    m1: "st1 \<in> set (re_run True
      (Grp 1 (Alt (Lit ''Commands'') (Alt (Lit ''Usage'') (Alt (Lit ''Options'') (Lit ''Flags'')))))
      (0, t, []))" and
    m2: "st \<in> set (re_run True (Seq (Lit '':'') Eps) st1)" by blast
  from re_run_GrpD [OF m1] obtain j s' c' where
    st1: "st1 = (j, s', (1, take (j - 0) t) # c')" and
    alt: "(j, s', c') \<in> set (re_run True
      (Alt (Lit ''Commands'') (Alt (Lit ''Usage'') (Alt (Lit ''Options'') (Lit ''Flags''))))
      (0, t, []))" by blast
  from re_run_AltD [OF alt] re_run_AltD re_run_AltD
  have "(j, s', c') \<in> set (re_run True (Lit ''Commands'') (0, t, []))
      \<or> (j, s', c') \<in> set (re_run True (Lit ''Usage'') (0, t, []))
      \<or> (j, s', c') \<in> set (re_run True (Lit ''Options'') (0, t, []))
      \<or> (j, s', c') \<in> set (re_run True (Lit ''Flags'') (0, t, []))" by blast
  then have "\<exists>w. w \<in> set [''Commands'', ''Usage'', ''Options'', ''Flags'']
          \<and> lit_prefix True w t \<and> s' = drop (length w) t"
  proof (elim disjE)
    assume "(j, s', c') \<in> set (re_run True (Lit ''Commands'') (0, t, []))"
    from re_run_Lit_member [OF this] show ?thesis by (intro exI [of _ "''Commands''"]) simp
  next
    assume "(j, s', c') \<in> set (re_run True (Lit ''Usage'') (0, t, []))"
    from re_run_Lit_member [OF this] show ?thesis by (intro exI [of _ "''Usage''"]) simp
  next
    assume "(j, s', c') \<in> set (re_run True (Lit ''Options'') (0, t, []))"
    from re_run_Lit_member [OF this] show ?thesis by (intro exI [of _ "''Options''"]) simp
  next
    assume "(j, s', c') \<in> set (re_run True (Lit ''Flags'') (0, t, []))"
    from re_run_Lit_member [OF this] show ?thesis by (intro exI [of _ "''Flags''"]) simp
  qed
  then obtain w where w: "w \<in> set [''Commands'', ''Usage'', ''Options'', ''Flags'']"
    and pre: "lit_prefix True w t" and s': "s' = drop (length w) t"
    by blast
  from w header_words(1) have letters: "list_all header_letter w" by auto
  from lit_prefix_ci_word [OF letters pre] obtain w' rest where
    t: "t = w' @ rest" and low: "toLowerCase w' = toLowerCase w" and nc: "CHR '':'' \<notin> set w'"
    by blast
  from low have "length w' = length w" unfolding toLowerCase_def by (rule map_eq_imp_length_eq)
  with t s' have rest: "s' = rest" by simp
  from re_run_SeqD [OF m2] obtain st2 where "st2 \<in> set (re_run True (Lit '':'') st1)" by blast
  from re_run_LitD [OF this [unfolded st1]] rest obtain c rest' where
    "rest = c # rest'" "toUpperChar (CHR '':'') = toUpperChar c"
    by (cases rest) (auto simp: canon_def split: if_splits)
  with colon_has_no_case [THEN spec, of c] have "rest = CHR '':'' # rest'" by simp
  with t hd_split_on [OF nc] have "hd (split_on (CHR '':'') t) = w'" by simp
  with low have "toLowerCase (hd (split_on (CHR '':'') t)) = toLowerCase w" by simp
  with w header_words(2) show ?thesis by auto
qed

text \<open>
  One line of the parser, field by field: a header sets the cursor and every other line
  keeps it; the line adds its records under the cursor it meets.
\<close>

lemma parse_line_cursor:
  "cur_section (parse_line st l) = (if is_header l then Some (header_name l) else cur_section st)"
  by (simp add: parse_line_def Let_def is_header_def header_name_def split: option.splits)

lemma parse_line_commands:
  "r_commands (parse_line st l) = r_commands st @ command_records (cur_section st) l"
  by (simp add: parse_line_def Let_def is_header_def command_records_def split: option.splits)

lemma parse_line_flags:
  "r_flags (parse_line st l) = r_flags st @ flag_records (cur_section st) l"
proof -
  have names: "map trim (split_on (CHR '','') g) \<noteq> []" for g
    by (simp add: split_on_nonempty)
  show ?thesis
    by (simp add: parse_line_def Let_def is_header_def flag_records_def
        primary_name_canonical [OF names] split: option.splits del: One_nat_def)
qed

text \<open>
  The cursor that the loop carries is the section of the last header read.
\<close>

lemma cursor_from_filter:
  "cursor_from c ls =
     (case rev (filter is_header ls) of [] \<Rightarrow> c | h # earlier \<Rightarrow> Some (header_name h))"
  by (induction ls arbitrary: c) (auto split: list.splits)

lemma cursor_after_from: "cursor_after ls = cursor_from None ls"
  by (simp add: cursor_after_def cursor_from_filter)

lemma cursor_after_snoc:
  "cursor_after (ls @ [l]) = (if is_header l then Some (header_name l) else cursor_after ls)"
  by (simp add: cursor_after_def split: list.splits)

lemma cursor_after_under:
  assumes "is_header h" "filter is_header ys = []"
  shows "cursor_after (xs @ h # ys) = Some (header_name h)"
  using assms by (simp add: cursor_after_def split: list.splits)

lemma take_under:
  assumes "j < k" "k < length ls"
  shows "take k ls = take j ls @ ls ! j # drop (Suc j) (take k ls)"
proof -
  from assms have "j < length (take k ls)" by simp
  from id_take_nth_drop [OF this] assms show ?thesis by (simp add: min_def)
qed

text \<open>
  The loop over the lines: the cursor and the records after all the lines, from any state.
\<close>

lemma indexed_Cons:
  "concat (map (\<lambda>k. g (take k (l # ls)) ((l # ls) ! k)) [0..<Suc (length ls)])
     = g [] l @ concat (map (\<lambda>k. g (l # take k ls) (ls ! k)) [0..<length ls])"
proof -
  have "[0..<Suc (length ls)] = 0 # map Suc [0..<length ls]"
    by (simp add: upt_conv_Cons map_Suc_upt del: upt_Suc)
  then show ?thesis by (simp add: comp_def del: upt_Suc)
qed

lemma concat_indexed_member:
  assumes "r \<in> set (concat (map f [0..<n]))"
  shows "\<exists>k<n. r \<in> set (f k)"
  using assms by auto

lemma fold_cursor:
  "cur_section (fold (\<lambda>l s. parse_line s l) ls st) = cursor_from (cur_section st) ls"
  by (induction ls arbitrary: st) (simp_all add: parse_line_cursor)

lemma fold_commands:
  "r_commands (fold (\<lambda>l s. parse_line s l) ls st)
     = r_commands st
       @ concat (map (\<lambda>k. command_records (cursor_from (cur_section st) (take k ls)) (ls ! k))
                  [0..<length ls])"
proof (induction ls arbitrary: st)
  case Nil
  then show ?case by simp
next
  case (Cons l ls)
  have "r_commands (fold (\<lambda>l s. parse_line s l) (l # ls) st)
      = r_commands (fold (\<lambda>l s. parse_line s l) ls (parse_line st l))" by simp
  also have "\<dots> = r_commands st @ command_records (cur_section st) l
      @ concat (map (\<lambda>k. command_records
                  (cursor_from (cur_section st) (l # take k ls)) (ls ! k)) [0..<length ls])"
    unfolding Cons.IH by (simp add: parse_line_cursor parse_line_commands)
  also have "\<dots> = r_commands st
      @ concat (map (\<lambda>k. command_records (cursor_from (cur_section st) (take k (l # ls)))
                  ((l # ls) ! k)) [0..<length (l # ls)])"
    using indexed_Cons [of "\<lambda>pre. command_records (cursor_from (cur_section st) pre)" l ls]
    by simp
  finally show ?case .
qed

lemma fold_flags:
  "r_flags (fold (\<lambda>l s. parse_line s l) ls st)
     = r_flags st
       @ concat (map (\<lambda>k. flag_records (cursor_from (cur_section st) (take k ls)) (ls ! k))
                  [0..<length ls])"
proof (induction ls arbitrary: st)
  case Nil
  then show ?case by simp
next
  case (Cons l ls)
  have "r_flags (fold (\<lambda>l s. parse_line s l) (l # ls) st)
      = r_flags (fold (\<lambda>l s. parse_line s l) ls (parse_line st l))" by simp
  also have "\<dots> = r_flags st @ flag_records (cur_section st) l
      @ concat (map (\<lambda>k. flag_records
                  (cursor_from (cur_section st) (l # take k ls)) (ls ! k)) [0..<length ls])"
    unfolding Cons.IH by (simp add: parse_line_cursor parse_line_flags)
  also have "\<dots> = r_flags st
      @ concat (map (\<lambda>k. flag_records (cursor_from (cur_section st) (take k (l # ls)))
                  ((l # ls) ! k)) [0..<length (l # ls)])"
    using indexed_Cons [of "\<lambda>pre. flag_records (cursor_from (cur_section st) pre)" l ls]
    by simp
  finally show ?case .
qed

text \<open>
  A line that matches the pattern of flag lines starts, after its indentation, with a dash:
  it is neither a header nor blank, so under \<open>options\<close> or \<open>flags\<close> it yields its record.
  And every record of a line comes from a match of the line, which is no header.
\<close>

lemma flag_line_not_header:
  assumes "re_match False flag_line_pattern line = Some caps"
  shows "\<not> is_header line" "trim line \<noteq> []"
proof -
  from flag_line_match [OF assms] obtain u rest where
    line: "line = u @ CHR ''-'' # rest" "list_all is_space u" by blast
  from trim_first [OF line(2) dash_no_space] line(1) obtain t where t: "trim line = CHR ''-'' # t"
    by blast
  show "\<not> is_header line" unfolding is_header_def t by (rule header_not_dash)
  show "trim line \<noteq> []" by (simp add: t)
qed

lemma flag_records_match:
  assumes "cursor = Some ''options'' \<or> cursor = Some ''flags''"
    and "re_match False flag_line_pattern line = Some caps"
  shows "flag_records cursor line =
           [\<lparr>name = canonical_flag_name (map trim (split_on (CHR '','') (grp caps 1))),
             desc = grp caps 2\<rparr>]"
  using assms flag_line_not_header [OF assms(2)]
  by (simp add: flag_records_def del: One_nat_def)

lemma flag_records_member:
  assumes "r \<in> set (flag_records cursor line)"
  shows "\<not> is_header line \<and> (cursor = Some ''options'' \<or> cursor = Some ''flags'')
         \<and> (\<exists>caps. re_match False flag_line_pattern line = Some caps
                \<and> r = \<lparr>name = canonical_flag_name (map trim (split_on (CHR '','') (grp caps 1))),
                        desc = grp caps 2\<rparr>)"
proof (cases "is_header line \<or> trim line = []
              \<or> \<not> (cursor = Some ''options'' \<or> cursor = Some ''flags'')")
  case True
  then have "flag_records cursor line = []" by (auto simp add: flag_records_def)
  with assms show ?thesis by simp
next
  case False
  then have rec: "flag_records cursor line =
      (case re_match False flag_line_pattern line of
         None \<Rightarrow> []
       | Some caps \<Rightarrow>
           [\<lparr>name = canonical_flag_name (map trim (split_on (CHR '','') (grp caps 1))),
             desc = grp caps 2\<rparr>])"
    by (simp add: flag_records_def del: One_nat_def)
  show ?thesis
  proof (cases "re_match False flag_line_pattern line")
    case None
    with rec assms show ?thesis by simp
  next
    case (Some caps)
    with rec assms have "r = \<lparr>name = canonical_flag_name
                                 (map trim (split_on (CHR '','') (grp caps 1))),
                           desc = grp caps 2\<rparr>"
      by (simp del: One_nat_def)
    with Some False show ?thesis by blast
  qed
qed

lemma command_records_member:
  assumes "r \<in> set (command_records cursor line)"
  shows "\<not> is_header line \<and> cursor = Some ''commands''
         \<and> (\<exists>caps. re_match False command_line_pattern line = Some caps
                \<and> r = \<lparr>name = grp caps 1, desc = grp caps 2\<rparr>)"
proof (cases "is_header line \<or> trim line = [] \<or> cursor \<noteq> Some ''commands''")
  case True
  then have "command_records cursor line = []" by (auto simp add: command_records_def)
  with assms show ?thesis by simp
next
  case False
  then have rec: "command_records cursor line =
      (case re_match False command_line_pattern line of
         None \<Rightarrow> []
       | Some caps \<Rightarrow> [\<lparr>name = grp caps 1, desc = grp caps 2\<rparr>])"
    by (simp add: command_records_def del: One_nat_def)
  show ?thesis
  proof (cases "re_match False command_line_pattern line")
    case None
    with rec assms show ?thesis by simp
  next
    case (Some caps)
    with rec assms have "r = \<lparr>name = grp caps 1, desc = grp caps 2\<rparr>"
      by (simp del: One_nat_def)
    with Some False show ?thesis by blast
  qed
qed

text \<open>
  C9: for every help text, the result of the parser is the result of its lines: the section
  it ends in is the one that the last header line names (none before the first header),
  and its command and flag records are, line after line in the order of the text, the
  records of each line under the cursor that the lines before it leave. A header line
  yields no record under any cursor, it only moves the cursor, to one of \<open>commands\<close>,
  \<open>usage\<close>, \<open>options\<close> and \<open>flags\<close>; every other line keeps the cursor. A line that
  matches the pattern of flag lines under the cursor \<open>options\<close> or \<open>flags\<close> yields exactly
  one flag record: its name is the canonical name among the alternatives that the comma
  separates (the long form if there is one, else the first), and its description is the
  trailing text of the line. So the record of a flag line that stands under a header of
  options or flags, with no other header between them, is among the flags of the result.
  Conversely, every record of the result comes from a match of a line that is no header.
\<close>

theorem help_parser_text:
  "cur_section (parseHelpOutput output) = cursor_after (help_lines output)
   \<and> r_commands (parseHelpOutput output)
       = concat (map (\<lambda>k. command_records (cursor_after (take k (help_lines output)))
                            (help_lines output ! k))
                  [0..<length (help_lines output)])
   \<and> r_flags (parseHelpOutput output)
       = concat (map (\<lambda>k. flag_records (cursor_after (take k (help_lines output)))
                            (help_lines output ! k))
                  [0..<length (help_lines output)])
   \<and> cursor_after [] = None
   \<and> cursor_after (lines @ [line])
       = (if is_header line then Some (header_name line) else cursor_after lines)
   \<and> (is_header line \<longrightarrow>
        command_records cursor line = [] \<and> flag_records cursor line = []
        \<and> header_name line \<in> set [''commands'', ''usage'', ''options'', ''flags''])
   \<and> ((cursor = Some ''options'' \<or> cursor = Some ''flags'')
        \<and> re_match False flag_line_pattern line = Some caps \<longrightarrow>
        flag_records cursor line =
          [\<lparr>name = canonical_flag_name (map trim (split_on (CHR '','') (grp caps 1))),
            desc = grp caps 2\<rparr>]
        \<and> (\<exists>pre. line = pre @ grp caps 2) \<and> grp caps 2 \<noteq> [])
   \<and> (j < k \<and> k < length (help_lines output)
        \<and> is_header (help_lines output ! j)
        \<and> (header_name (help_lines output ! j) = ''options''
            \<or> header_name (help_lines output ! j) = ''flags'')
        \<and> filter is_header (drop (Suc j) (take k (help_lines output))) = []
        \<and> re_match False flag_line_pattern (help_lines output ! k) = Some found \<longrightarrow>
        \<lparr>name = canonical_flag_name (map trim (split_on (CHR '','') (grp found 1))),
          desc = grp found 2\<rparr> \<in> set (r_flags (parseHelpOutput output)))
   \<and> (flag \<in> set (r_flags (parseHelpOutput output)) \<longrightarrow>
        (\<exists>k<length (help_lines output).
           \<not> is_header (help_lines output ! k)
           \<and> (cursor_after (take k (help_lines output)) = Some ''options''
               \<or> cursor_after (take k (help_lines output)) = Some ''flags'')
           \<and> (\<exists>caps. re_match False flag_line_pattern (help_lines output ! k) = Some caps
                  \<and> flag = \<lparr>name = canonical_flag_name
                                       (map trim (split_on (CHR '','') (grp caps 1))),
                             desc = grp caps 2\<rparr>)))
   \<and> (command \<in> set (r_commands (parseHelpOutput output)) \<longrightarrow>
        (\<exists>k<length (help_lines output).
           \<not> is_header (help_lines output ! k)
           \<and> cursor_after (take k (help_lines output)) = Some ''commands''
           \<and> (\<exists>caps. re_match False command_line_pattern (help_lines output ! k) = Some caps
                  \<and> command = \<lparr>name = grp caps 1, desc = grp caps 2\<rparr>)))"
proof (intro conjI impI)
  show "cur_section (parseHelpOutput output) = cursor_after (help_lines output)"
    by (simp add: parseHelpOutput_def help_lines_def fold_cursor cursor_after_from)
next
  show "r_commands (parseHelpOutput output)
       = concat (map (\<lambda>k. command_records (cursor_after (take k (help_lines output)))
                            (help_lines output ! k))
                  [0..<length (help_lines output)])"
    by (simp add: parseHelpOutput_def help_lines_def fold_commands cursor_after_from)
next
  show "r_flags (parseHelpOutput output)
       = concat (map (\<lambda>k. flag_records (cursor_after (take k (help_lines output)))
                            (help_lines output ! k))
                  [0..<length (help_lines output)])"
    by (simp add: parseHelpOutput_def help_lines_def fold_flags cursor_after_from)
next
  show "cursor_after [] = None" by (simp add: cursor_after_def)
next
  show "cursor_after (lines @ [line])
       = (if is_header line then Some (header_name line) else cursor_after lines)"
    by (rule cursor_after_snoc)
next
  assume "is_header line"
  then show "command_records cursor line = []" by (simp add: command_records_def)
next
  assume "is_header line"
  then show "flag_records cursor line = []" by (simp add: flag_records_def)
next
  assume "is_header line"
  then show "header_name line \<in> set [''commands'', ''usage'', ''options'', ''flags'']"
    unfolding is_header_def header_name_def by (rule header_section)
next
  assume a: "(cursor = Some ''options'' \<or> cursor = Some ''flags'')
        \<and> re_match False flag_line_pattern line = Some caps"
  then have c: "cursor = Some ''options'' \<or> cursor = Some ''flags''"
    and m: "re_match False flag_line_pattern line = Some caps" by simp_all
  from c m show "flag_records cursor line =
          [\<lparr>name = canonical_flag_name (map trim (split_on (CHR '','') (grp caps 1))),
            desc = grp caps 2\<rparr>]"
    by (rule flag_records_match)
next
  assume a: "(cursor = Some ''options'' \<or> cursor = Some ''flags'')
        \<and> re_match False flag_line_pattern line = Some caps"
  then have m: "re_match False flag_line_pattern line = Some caps" by simp
  from flag_line_match [OF m] show "\<exists>pre. line = pre @ grp caps 2" by blast
next
  assume a: "(cursor = Some ''options'' \<or> cursor = Some ''flags'')
        \<and> re_match False flag_line_pattern line = Some caps"
  then have m: "re_match False flag_line_pattern line = Some caps" by simp
  from flag_line_match [OF m] show "grp caps 2 \<noteq> []" by blast
next
  let ?ls = "help_lines output"
  let ?r = "\<lparr>name = canonical_flag_name (map trim (split_on (CHR '','') (grp found 1))),
          desc = grp found 2\<rparr>"
  assume a: "j < k \<and> k < length ?ls
        \<and> is_header (?ls ! j)
        \<and> (header_name (?ls ! j) = ''options'' \<or> header_name (?ls ! j) = ''flags'')
        \<and> filter is_header (drop (Suc j) (take k ?ls)) = []
        \<and> re_match False flag_line_pattern (?ls ! k) = Some found"
  then have jk: "j < k" and k: "k < length ?ls" and h: "is_header (?ls ! j)"
    and n: "header_name (?ls ! j) = ''options'' \<or> header_name (?ls ! j) = ''flags''"
    and f: "filter is_header (drop (Suc j) (take k ?ls)) = []"
    and m: "re_match False flag_line_pattern (?ls ! k) = Some found" by simp_all
  have "cursor_after (take k ?ls)
      = cursor_after (take j ?ls @ ?ls ! j # drop (Suc j) (take k ?ls))"
    using take_under [OF jk k] by simp
  also have "\<dots> = Some (header_name (?ls ! j))" using h f by (rule cursor_after_under)
  finally have c: "cursor_after (take k ?ls) = Some (header_name (?ls ! j))" .
  from n have "cursor_after (take k ?ls) = Some ''options''
      \<or> cursor_after (take k ?ls) = Some ''flags''" unfolding c by simp
  from flag_records_match [OF this m]
  have "?r \<in> set (flag_records (cursor_after (take k ?ls)) (?ls ! k))" by simp
  moreover from k have "k \<in> set [0..<length ?ls]" by simp
  ultimately have "?r \<in> set (concat (map (\<lambda>k. flag_records (cursor_after (take k ?ls)) (?ls ! k))
                  [0..<length ?ls]))"
    unfolding set_concat set_map by blast
  then show "?r \<in> set (r_flags (parseHelpOutput output))"
    by (simp add: parseHelpOutput_def help_lines_def fold_flags cursor_after_from
        del: set_concat set_map set_upt)
next
  let ?ls = "help_lines output"
  assume "flag \<in> set (r_flags (parseHelpOutput output))"
  then have "flag \<in> set (concat (map (\<lambda>k. flag_records (cursor_after (take k ?ls)) (?ls ! k))
                  [0..<length ?ls]))"
    by (simp add: parseHelpOutput_def help_lines_def fold_flags cursor_after_from
        del: set_concat set_map set_upt)
  from concat_indexed_member [OF this] obtain k where
    k: "k < length ?ls" "flag \<in> set (flag_records (cursor_after (take k ?ls)) (?ls ! k))"
    by blast
  from flag_records_member [OF k(2)] k(1)
  show "\<exists>k<length ?ls.
           \<not> is_header (?ls ! k)
           \<and> (cursor_after (take k ?ls) = Some ''options''
               \<or> cursor_after (take k ?ls) = Some ''flags'')
           \<and> (\<exists>caps. re_match False flag_line_pattern (?ls ! k) = Some caps
                  \<and> flag = \<lparr>name = canonical_flag_name
                                       (map trim (split_on (CHR '','') (grp caps 1))),
                             desc = grp caps 2\<rparr>)"
    by (intro exI [of _ k] conjI) blast+
next
  let ?ls = "help_lines output"
  assume "command \<in> set (r_commands (parseHelpOutput output))"
  then have "command \<in> set (concat (map (\<lambda>k. command_records (cursor_after (take k ?ls)) (?ls ! k))
                  [0..<length ?ls]))"
    by (simp add: parseHelpOutput_def help_lines_def fold_commands cursor_after_from
        del: set_concat set_map set_upt)
  from concat_indexed_member [OF this] obtain k where
    k: "k < length ?ls" "command \<in> set (command_records (cursor_after (take k ?ls)) (?ls ! k))"
    by blast
  from command_records_member [OF k(2)] k(1)
  show "\<exists>k<length ?ls.
           \<not> is_header (?ls ! k)
           \<and> cursor_after (take k ?ls) = Some ''commands''
           \<and> (\<exists>caps. re_match False command_line_pattern (?ls ! k) = Some caps
                  \<and> command = \<lparr>name = grp caps 1, desc = grp caps 2\<rparr>)"
    by (intro exI [of _ k] conjI) blast+
qed

text \<open>
  The values of the right-hand sides at the short help text.
\<close>

lemma short_help_values:
  "cursor_after (help_lines short_help) = Some ''flags''"
  "concat (map (\<lambda>k. command_records (cursor_after (take k (help_lines short_help)))
                        (help_lines short_help ! k)) [0..<length (help_lines short_help)])
     = [\<lparr>name = ''init'', desc = ''Create a config''\<rparr>]"
  "concat (map (\<lambda>k. flag_records (cursor_after (take k (help_lines short_help)))
                        (help_lines short_help ! k)) [0..<length (help_lines short_help)])
     = [\<lparr>name = ''-v'', desc = ''Verbose''\<rparr>, \<lparr>name = ''-q'', desc = ''Quiet''\<rparr>]"
  by code_simp+

text \<open>
  The theorem at the help text of the tool itself and at the short help text, at a header
  line in capitals, and at the line of \<open>--force\<close>, which is the line 6 of the help text of
  the tool, under the header of the line 3.
\<close>

theorem help_parser_text_witness:
  "cur_section (parseHelpOutput own_help) = Some ''options''
   \<and> r_commands (parseHelpOutput own_help) = []
   \<and> r_flags (parseHelpOutput own_help)
       = [\<lparr>name = ''--help'', desc = ''Show this help message''\<rparr>,
          \<lparr>name = ''--json'', desc = ''Output analysis as JSON (no file write)''\<rparr>,
          \<lparr>name = ''--force'', desc = ''Overwrite existing README.md''\<rparr>,
          \<lparr>name = ''--stdout'', desc = ''Print README to stdout (no file write)''\<rparr>,
          \<lparr>name = ''--badges'', desc = ''Include GitHub badges''\<rparr>]
   \<and> cur_section (parseHelpOutput short_help) = Some ''flags''
   \<and> r_commands (parseHelpOutput short_help) = [\<lparr>name = ''init'', desc = ''Create a config''\<rparr>]
   \<and> r_flags (parseHelpOutput short_help)
       = [\<lparr>name = ''-v'', desc = ''Verbose''\<rparr>, \<lparr>name = ''-q'', desc = ''Quiet''\<rparr>]
   \<and> is_header ''  OPTIONS: (all optional)''
   \<and> header_name ''  OPTIONS: (all optional)'' = ''options''
   \<and> flag_records (Some ''options'') ''  OPTIONS: (all optional)'' = []
   \<and> command_records (Some ''options'') ''  OPTIONS: (all optional)'' = []
   \<and> cursor_after ([''Options:''] @ [''  -f, --force    Overwrite existing README.md''])
       = Some ''options''
   \<and> re_match False flag_line_pattern ''  -f, --force    Overwrite existing README.md''
       = Some [(2, ''Overwrite existing README.md''), (1, ''-f, --force'')]
   \<and> flag_records (Some ''options'') ''  -f, --force    Overwrite existing README.md''
       = [\<lparr>name = ''--force'', desc = ''Overwrite existing README.md''\<rparr>]
   \<and> help_lines own_help ! 3 = ''Options:''
   \<and> help_lines own_help ! 6 = ''  -f, --force    Overwrite existing README.md''
   \<and> \<lparr>name = ''--force'', desc = ''Overwrite existing README.md''\<rparr>
       \<in> set (r_flags (parseHelpOutput own_help))
   \<and> (\<exists>k<length (help_lines own_help).
         \<not> is_header (help_lines own_help ! k)
         \<and> (cursor_after (take k (help_lines own_help)) = Some ''options''
             \<or> cursor_after (take k (help_lines own_help)) = Some ''flags'')
         \<and> (\<exists>caps. re_match False flag_line_pattern (help_lines own_help ! k) = Some caps
                \<and> \<lparr>name = ''--force'', desc = ''Overwrite existing README.md''\<rparr>
                    = \<lparr>name = canonical_flag_name
                                (map trim (split_on (CHR '','') (grp caps 1))),
                       desc = grp caps 2\<rparr>))
   \<and> (\<exists>k<length (help_lines short_help).
         \<not> is_header (help_lines short_help ! k)
         \<and> cursor_after (take k (help_lines short_help)) = Some ''commands''
         \<and> (\<exists>caps. re_match False command_line_pattern (help_lines short_help ! k) = Some caps
                \<and> \<lparr>name = ''init'', desc = ''Create a config''\<rparr>
                    = \<lparr>name = grp caps 1, desc = grp caps 2\<rparr>))"
proof -
  let ?hd = "''  OPTIONS: (all optional)''"
  let ?fl = "''  -f, --force    Overwrite existing README.md''"
  let ?caps = "[(2, ''Overwrite existing README.md''), (1::nat, ''-f, --force'')]"
  let ?force = "\<lparr>name = ''--force'', desc = ''Overwrite existing README.md''\<rparr>"
  let ?init = "\<lparr>name = ''init'', desc = ''Create a config''\<rparr>"
  let ?ls = "help_lines own_help"
  note whole = help_parser_text
    [of own_help "[''Options:'']" ?fl "Some ''options''" ?caps 3 6 ?caps ?force ?init]
  note head = help_parser_text
    [of own_help "[]" ?hd "Some ''options''" ?caps 3 6 ?caps ?force ?init]
  note short = help_parser_text
    [of short_help "[]" ?hd "Some ''options''" ?caps 3 6 ?caps ?force ?init]
  have v1: "cursor_after ?ls = Some ''options''" by code_simp
  have v2: "concat (map (\<lambda>k. command_records (cursor_after (take k ?ls)) (?ls ! k))
              [0..<length ?ls]) = []" by code_simp
  have v3: "concat (map (\<lambda>k. flag_records (cursor_after (take k ?ls)) (?ls ! k))
              [0..<length ?ls])
       = [\<lparr>name = ''--help'', desc = ''Show this help message''\<rparr>,
          \<lparr>name = ''--json'', desc = ''Output analysis as JSON (no file write)''\<rparr>,
          \<lparr>name = ''--force'', desc = ''Overwrite existing README.md''\<rparr>,
          \<lparr>name = ''--stdout'', desc = ''Print README to stdout (no file write)''\<rparr>,
          \<lparr>name = ''--badges'', desc = ''Include GitHub badges''\<rparr>]" by code_simp
  have h1: "is_header ?hd" by code_simp
  have h2: "header_name ?hd = ''options''" by code_simp
  have h3: "\<not> is_header ?fl" by code_simp
  have h4: "cursor_after [''Options:''] = Some ''options''" by code_simp
  have h5: "re_match False flag_line_pattern ?fl = Some ?caps" by code_simp
  have h6: "canonical_flag_name (map trim (split_on (CHR '','') (grp ?caps 1))) = ''--force''"
    by code_simp
  have h7: "grp ?caps 2 = ''Overwrite existing README.md''" by code_simp
  have l3: "?ls ! 3 = ''Options:''" by code_simp
  have l6: "?ls ! 6 = ?fl" by code_simp
  have g1: "(3::nat) < 6" by simp
  have g2: "6 < length ?ls" by code_simp
  have g3: "is_header (?ls ! 3)" by code_simp
  have g4: "header_name (?ls ! 3) = ''options''" by code_simp
  have g5: "filter is_header (drop (Suc 3) (take 6 ?ls)) = []" by code_simp
  have g6: "re_match False flag_line_pattern (?ls ! 6) = Some ?caps" by code_simp
  from whole have p1: "cur_section (parseHelpOutput own_help) = Some ''options''"
    unfolding v1 by blast
  from whole have p2: "r_commands (parseHelpOutput own_help) = []"
    unfolding v2 by blast
  from whole have p3: "r_flags (parseHelpOutput own_help)
       = [\<lparr>name = ''--help'', desc = ''Show this help message''\<rparr>,
          \<lparr>name = ''--json'', desc = ''Output analysis as JSON (no file write)''\<rparr>,
          \<lparr>name = ''--force'', desc = ''Overwrite existing README.md''\<rparr>,
          \<lparr>name = ''--stdout'', desc = ''Print README to stdout (no file write)''\<rparr>,
          \<lparr>name = ''--badges'', desc = ''Include GitHub badges''\<rparr>]"
    unfolding v3 by blast
  from short have s1: "cur_section (parseHelpOutput short_help) = Some ''flags''"
    unfolding short_help_values by blast
  from short have s2: "r_commands (parseHelpOutput short_help) = [?init]"
    unfolding short_help_values by blast
  from short have s3: "r_flags (parseHelpOutput short_help)
       = [\<lparr>name = ''-v'', desc = ''Verbose''\<rparr>, \<lparr>name = ''-q'', desc = ''Quiet''\<rparr>]"
    unfolding short_help_values by blast
  from head h1 have p4: "flag_records (Some ''options'') ?hd = []" by blast
  from head h1 have p5: "command_records (Some ''options'') ?hd = []" by blast
  from whole have "cursor_after ([''Options:''] @ [?fl])
       = (if is_header ?fl then Some (header_name ?fl) else cursor_after [''Options:''])"
    by blast
  with h3 h4 have p6: "cursor_after ([''Options:''] @ [?fl]) = Some ''options''" by simp
  from whole h5 have "flag_records (Some ''options'') ?fl
      = [\<lparr>name = canonical_flag_name (map trim (split_on (CHR '','') (grp ?caps 1))),
            desc = grp ?caps 2\<rparr>]" by blast
  then have p7: "flag_records (Some ''options'') ?fl = [?force]"
    unfolding h6 h7 .
  from whole g1 g2 g3 g4 g5 g6
  have "\<lparr>name = canonical_flag_name (map trim (split_on (CHR '','') (grp ?caps 1))),
          desc = grp ?caps 2\<rparr> \<in> set (r_flags (parseHelpOutput own_help))" by blast
  then have p8: "?force \<in> set (r_flags (parseHelpOutput own_help))"
    unfolding h6 h7 .
  from whole p8 have p9: "\<exists>k<length ?ls.
         \<not> is_header (?ls ! k)
         \<and> (cursor_after (take k ?ls) = Some ''options''
             \<or> cursor_after (take k ?ls) = Some ''flags'')
         \<and> (\<exists>caps. re_match False flag_line_pattern (?ls ! k) = Some caps
                \<and> ?force = \<lparr>name = canonical_flag_name
                                (map trim (split_on (CHR '','') (grp caps 1))),
                       desc = grp caps 2\<rparr>)" by blast
  from s2 have "?init \<in> set (r_commands (parseHelpOutput short_help))" by simp
  with short have p10: "\<exists>k<length (help_lines short_help).
         \<not> is_header (help_lines short_help ! k)
         \<and> cursor_after (take k (help_lines short_help)) = Some ''commands''
         \<and> (\<exists>caps. re_match False command_line_pattern (help_lines short_help ! k) = Some caps
                \<and> ?init = \<lparr>name = grp caps 1, desc = grp caps 2\<rparr>)" by blast
  show ?thesis
    by (intro conjI) (rule p1, rule p2, rule p3, rule s1, rule s2, rule s3, rule h1, rule h2,
        rule p4, rule p5, rule p6, rule h5, rule p7, rule l3, rule l6, rule p8, rule p9,
        rule p10)
qed


section \<open>Further properties of the script\<close>

text \<open>
  The scanning loops end, so no run of the script hangs in them.
\<close>

lemma analyse_never_hangs: "analyse h fs flags absPath readmePath pkg \<noteq> Hangs"
proof -
  obtain st where "scan_files fs
      (fold set_add
        (path_join h [absPath, or_default (pkg_main pkg) ''index.js'']
         # map (\<lambda>binPath. path_join h [absPath, binPath]) (map snd (list_default (pkg_bin pkg))))
        [])
      \<lparr>staticCommands = [], staticFlags = [], usage = []\<rparr> = Some st"
    using scan_files_total by blast
  then show ?thesis
    unfolding analyse_def Let_def finish_json by (simp split: sum.splits)
qed

text \<open>
  No run of the script writes a file: whatever the host, the files and the command line, a
  run that exits leaves the file system as it found it, and no run hangs.
\<close>

theorem run_writes_nothing:
  "(case run h fs args of Exit n out fs' \<Rightarrow> fs' = fs | Uncaught e \<Rightarrow> True | Hangs \<Rightarrow> False)"
proof (cases "run h fs args")
  case (Exit n out fs')
  from run_keeps_files [OF this] Exit show ?thesis by simp
next
  case (Uncaught e)
  then show ?thesis by simp
next
  case Hangs
  then have False
    unfolding run_def Let_def
    by (auto split: if_splits option.splits simp: analyse_never_hangs)
  then show ?thesis ..
qed

lemma add_command_stoplist:
  "list_all (\<lambda>c. toLowerCase c \<notin> set command_stoplist) acc \<Longrightarrow>
   list_all (\<lambda>c. toLowerCase c \<notin> set command_stoplist) (add_command caps acc)"
  unfolding add_command_def set_add_def Let_def by (auto simp: list_all_iff)

lemma fold_add_command_stoplist:
  "list_all (\<lambda>c. toLowerCase c \<notin> set command_stoplist) acc \<Longrightarrow>
   list_all (\<lambda>c. toLowerCase c \<notin> set command_stoplist) (fold add_command ms acc)"
  by (induction ms arbitrary: acc) (simp_all add: add_command_stoplist)

lemma scan_commands_stoplist:
  "scan_commands ps code acc = Some cmds \<Longrightarrow>
   list_all (\<lambda>c. toLowerCase c \<notin> set command_stoplist) acc \<Longrightarrow>
   list_all (\<lambda>c. toLowerCase c \<notin> set command_stoplist) cmds"
proof (induction ps arbitrary: acc)
  case Nil
  then show ?case by simp
next
  case (Cons p ps)
  from Cons.prems(1) obtain ms where "exec_all False p 0 code = Some ms"
    and rest: "scan_commands ps code (fold add_command ms acc) = Some cmds"
    by (auto split: option.splits)
  from Cons.IH [OF rest fold_add_command_stoplist [OF Cons.prems(2)]] show ?case .
qed

text \<open>
  For every source text the scan ends, and no command candidate is, in small letters, a
  word of the stoplist.
\<close>

theorem static_scan_ends_without_generic_words:
  "(case scan_code code empty_scan of
      Some st \<Rightarrow> list_all (\<lambda>c. toLowerCase c \<notin> set command_stoplist) (staticCommands st)
    | None \<Rightarrow> False)"
proof -
  from scan_code_total obtain st where st: "scan_code code empty_scan = Some st" by blast
  then obtain cmds where c: "scan_commands commandPatterns code [] = Some cmds"
    and "staticCommands st = cmds"
    by (auto simp: scan_code_def empty_scan_def split: option.splits)
  with scan_commands_stoplist [OF c] st show ?thesis by simp
qed

end
